theory Spec2Isabelle
  imports Main "HOL-Library.Multiset"
begin

section \<open>Host paths: \<^verbatim>\<open>filepath.Join\<close>\<close>

text \<open>
  \<^verbatim>\<open>Document\<close> builds every output path with \<^verbatim>\<open>filepath.Join\<close> of the Go standard
  library. The model below is the library function on a host whose separator is the
  slash: \<^verbatim>\<open>Join\<close> skips leading empty elements, glues the rest with the separator and
  \<^verbatim>\<open>Clean\<close>s the result; all elements empty gives the empty string. \<^verbatim>\<open>Clean\<close> drops
  empty and \<^verbatim>\<open>.\<close> elements, lets \<^verbatim>\<open>..\<close> cancel the element before it (at the root it is
  dropped, at the start of a relative path it is kept), and turns the empty result
  into \<^verbatim>\<open>.\<close>. Paths are handled element by element.
\<close>

definition Separator :: char where
  "Separator = CHR ''/''"

fun splitSep :: "string \<Rightarrow> string list" where
  "splitSep [] = [[]]"
| "splitSep (c # cs) =
     (if c = Separator then [] # splitSep cs
      else (case splitSep cs of [] \<Rightarrow> [[c]] | e # es \<Rightarrow> (c # e) # es))"

fun joinSep :: "string list \<Rightarrow> string" where
  "joinSep [] = []"
| "joinSep [e] = e"
| "joinSep (e # es) = e @ Separator # joinSep es"

definition cleanElem :: "bool \<Rightarrow> string list \<Rightarrow> string \<Rightarrow> string list" where
  "cleanElem rooted out e =
     (if e = [] \<or> e = ''.'' then out
      else if e = ''..'' then
        (if out \<noteq> [] \<and> last out \<noteq> ''..'' then butlast out
         else if rooted then out
         else out @ [''..''])
      else out @ [e])"

definition isRooted :: "string \<Rightarrow> bool" where
  "isRooted path = (case path of [] \<Rightarrow> False | c # _ \<Rightarrow> c = Separator)"

definition cleanElems :: "string \<Rightarrow> string list" where
  "cleanElems path = foldl (cleanElem (isRooted path)) [] (splitSep path)"

definition Clean :: "string \<Rightarrow> string" where
  "Clean path =
     (let out = cleanElems path
      in if isRooted path then Separator # joinSep out
         else if out = [] then ''.''
         else joinSep out)"

definition Join :: "string list \<Rightarrow> string" where
  "Join elem =
     (case dropWhile (\<lambda>e. e = []) elem of
        [] \<Rightarrow> []
      | e # es \<Rightarrow> Clean (joinSep (e # es)))"

text \<open>
  A plain element is a name that \<^verbatim>\<open>Clean\<close> keeps as it is: not empty, not \<^verbatim>\<open>.\<close>, not
  \<^verbatim>\<open>..\<close>, and without a separator. The paths \<^verbatim>\<open>Document\<close> joins are a directory followed
  by plain elements; such a path is the cleaned directory followed by those elements.
\<close>

definition plain :: "string \<Rightarrow> bool" where
  "plain e = (e \<noteq> [] \<and> e \<noteq> ''.'' \<and> e \<noteq> ''..'' \<and> Separator \<notin> set e)"

definition rootPrefix :: "string \<Rightarrow> string" where
  "rootPrefix path = (if isRooted path then [Separator] else [])"

definition docsPath :: "string \<Rightarrow> string list \<Rightarrow> string" where
  "docsPath d tail = rootPrefix d @ joinSep (cleanElems d @ tail)"

text \<open>
  A clean directory is a path that \<^verbatim>\<open>Clean\<close> leaves as it is and that is neither the root
  nor \<^verbatim>\<open>.\<close>, as a working directory below the root is.
\<close>

definition cleanDir :: "string \<Rightarrow> bool" where
  "cleanDir r = (cleanElems r \<noteq> [] \<and> rootPrefix r @ joinSep (cleanElems r) = r)"

section \<open>Data model\<close>

text \<open>
  Go's \<^verbatim>\<open>error\<close> interface: a non-nil error carries its message; \<^verbatim>\<open>nil\<close> is
  \<^term>\<open>None\<close> of \<^typ>\<open>'a option\<close>. A Go result pair \<^verbatim>\<open>(v, err)\<close> is a pair whose second
  component is the optional error.
\<close>

datatype error = Error string

text \<open>
  Modelled from the spec: the struct of the parsed command line is declared outside
  \<^verbatim>\<open>autodoc.go\<close>. Its fields are the ones \<^verbatim>\<open>Document\<close> reads (\<^verbatim>\<open>help\<close>,
  \<^verbatim>\<open>providerName\<close>, \<^verbatim>\<open>docsDir\<close>, \<^verbatim>\<open>templateFileExt\<close>) and, for the two other options of
  the external interfaces section and of the package comment (\<^verbatim>\<open>-root\<close>,
  \<^verbatim>\<open>-templates-dir\<close>), \<open>rootDir\<close> and \<open>templatesDir\<close>.
\<close>

record args =
  "help" :: bool
  providerName :: string
  rootDir :: string
  docsDir :: string
  templatesDir :: string
  templateFileExt :: string

text \<open>
  The provider: its own schema and the two maps from a name to a resource. The schema
  of an entity is opaque (\<^typ>\<open>'s\<close>).
\<close>

datatype 's Resource = Resource (ResourceSchema: 's)

record 's Provider =
  Schema :: 's
  ResourcesMap :: "string \<rightharpoonup> 's Resource"
  DataSourcesMap :: "string \<rightharpoonup> 's Resource"

datatype schemaType = typeProvider | typeResource | typeDataSource

text \<open>
  The argument of a goroutine. All goroutines report to the one channel made in
  \<^verbatim>\<open>Document\<close>, which is a component of the run's state below, so the \<^verbatim>\<open>errChan\<close> field
  of \<^verbatim>\<open>goroutineBase\<close> is not repeated in every record. The loaded template set is
  opaque (\<^typ>\<open>'t\<close>).
\<close>

record 't goroutineBase =
  outFile :: string
  template :: 't
  templateName :: string

record ('s, 't) mkdocsYmlDoc = "'t goroutineBase" +
  provider :: "'s Provider"
  args :: args

record ('s, 't) schemaDoc = "'t goroutineBase" +
  schemaType :: schemaType
  name :: string
  schema :: 's

datatype ('s, 't) task =
    GenerateMkdocsYml "('s, 't) mkdocsYmlDoc"
  | GenerateSchemaDoc "('s, 't) schemaDoc"

fun task_outFile :: "('s, 't) task \<Rightarrow> string" where
  "task_outFile (GenerateMkdocsYml d) = outFile d"
| "task_outFile (GenerateSchemaDoc d) = outFile d"

fun task_templateName :: "('s, 't) task \<Rightarrow> string" where
  "task_templateName (GenerateMkdocsYml d) = templateName d"
| "task_templateName (GenerateSchemaDoc d) = templateName d"

text \<open>
  Modelled from the spec: where the file of a task lands is decided outside
  \<^verbatim>\<open>autodoc.go\<close> (by \<^verbatim>\<open>parseArgs\<close> and the goroutine functions). \<^verbatim>\<open>Document\<close> leaves
  \<^verbatim>\<open>outFile\<close> relative; by the external interfaces section of the spec and by the
  package comment (lines 30 to 44) the files are placed under the directory given to
  \<^verbatim>\<open>-root\<close>, which is the working directory unless the option is given. The file of a
  task is its \<^verbatim>\<open>outFile\<close> taken from the root directory.
\<close>

definition outputFile :: "args \<Rightarrow> ('s, 't) task \<Rightarrow> string" where
  "outputFile a t = Join [rootDir a, task_outFile t]"

text \<open>The four kinds of document a task can be for.\<close>

datatype role = ConfigFile | IndexDoc | ResourceDoc | DataSourceDoc

fun task_role :: "('s, 't) task \<Rightarrow> role" where
  "task_role (GenerateMkdocsYml d) = ConfigFile"
| "task_role (GenerateSchemaDoc d) =
     (case schemaType d of
        typeProvider \<Rightarrow> IndexDoc
      | typeResource \<Rightarrow> ResourceDoc
      | typeDataSource \<Rightarrow> DataSourceDoc)"

subsection \<open>Constants\<close>

definition ExitSuccess :: int where
  "ExitSuccess = 0"

definition ExitError :: int where
  "ExitError = 1"

text \<open>
  Modelled from the spec: the process that calls \<^verbatim>\<open>Document\<close> is outside
  \<^verbatim>\<open>autodoc.go\<close>. The exit contract (empty error list: exit code 0; any aggregated error:
  exit code 1) is the one of the external interfaces section and of the package comment.
\<close>

definition exitStatus :: "error list \<Rightarrow> int" where
  "exitStatus errs = (if errs = [] then ExitSuccess else ExitError)"

text \<open>
  Modelled from the spec: the four template name constants are declared outside
  \<^verbatim>\<open>autodoc.go\<close>. Their values are the binding names of the external interfaces section,
  which are also the associations listed in the package comment and in the usage text
  (there with the default extension \<^verbatim>\<open>.template\<close>).
\<close>

definition mkdocsYmlTemplate :: string where
  "mkdocsYmlTemplate = ''mkdocs.yml''"

definition providerMdTemplate :: string where
  "providerMdTemplate = ''index.md''"

definition resourceMdTemplate :: string where
  "resourceMdTemplate = ''resource.md''"

definition dataSourceMdTemplate :: string where
  "dataSourceMdTemplate = ''datasource.md''"

section \<open>The tasks \<^verbatim>\<open>Document\<close> submits\<close>

definition mkdocsYmlTask :: "'s Provider \<Rightarrow> args \<Rightarrow> 't \<Rightarrow> ('s, 't) task" where
  "mkdocsYmlTask p a templates =
     GenerateMkdocsYml
       \<lparr>outFile = Join [''mkdocs.yml''],
        template = templates,
        templateName = mkdocsYmlTemplate @ templateFileExt a,
        provider = p,
        args = a\<rparr>"

definition providerTask :: "'s Provider \<Rightarrow> args \<Rightarrow> 't \<Rightarrow> ('s, 't) task" where
  "providerTask p a templates =
     GenerateSchemaDoc
       \<lparr>outFile = Join [docsDir a, ''index.md''],
        template = templates,
        templateName = providerMdTemplate @ templateFileExt a,
        schemaType = typeProvider,
        name = providerName a,
        schema = Schema p\<rparr>"

definition resourceTask :: "args \<Rightarrow> 't \<Rightarrow> string \<Rightarrow> 's Resource \<Rightarrow> ('s, 't) task" where
  "resourceTask a templates nm resource =
     GenerateSchemaDoc
       \<lparr>outFile = Join [docsDir a, ''resources'', nm @ ''.md''],
        template = templates,
        templateName = resourceMdTemplate @ templateFileExt a,
        schemaType = typeResource,
        name = nm,
        schema = ResourceSchema resource\<rparr>"

definition dataSourceTask :: "args \<Rightarrow> 't \<Rightarrow> string \<Rightarrow> 's Resource \<Rightarrow> ('s, 't) task" where
  "dataSourceTask a templates nm resource =
     GenerateSchemaDoc
       \<lparr>outFile = Join [docsDir a, ''data-sources'', nm @ ''.md''],
        template = templates,
        templateName = dataSourceMdTemplate @ templateFileExt a,
        schemaType = typeDataSource,
        name = nm,
        schema = ResourceSchema resource\<rparr>"

text \<open>
  A \<^verbatim>\<open>range\<close> loop over a Go map visits every entry once, in an order the language leaves
  open. The order of a run is a parameter: a list of the map's keys without repetition.
\<close>

definition range_order :: "('k \<rightharpoonup> 'v) \<Rightarrow> 'k list \<Rightarrow> bool" where
  "range_order m ks = (distinct ks \<and> set ks = dom m)"

definition rangeTasks ::
  "(string \<Rightarrow> 's Resource \<Rightarrow> ('s, 't) task) \<Rightarrow> (string \<rightharpoonup> 's Resource) \<Rightarrow> string list
     \<Rightarrow> ('s, 't) task list" where
  "rangeTasks mk m ks =
     concat (map (\<lambda>k. case m k of None \<Rightarrow> [] | Some r \<Rightarrow> [mk k r]) ks)"

text \<open>The goroutines of lines 112 to 190, in the order the statements start them.\<close>

definition tasks ::
  "'s Provider \<Rightarrow> args \<Rightarrow> 't \<Rightarrow> string list \<Rightarrow> string list \<Rightarrow> ('s, 't) task list" where
  "tasks p a templates rkeys dkeys =
     [mkdocsYmlTask p a templates, providerTask p a templates]
     @ rangeTasks (resourceTask a templates) (ResourcesMap p) rkeys
     @ rangeTasks (dataSourceTask a templates) (DataSourcesMap p) dkeys"

section \<open>The environment of a run\<close>

text \<open>
  What \<^verbatim>\<open>Document\<close> calls but does not define is a parameter of the model:
  \<^verbatim>\<open>parseArgs\<close> (its result pair), \<^verbatim>\<open>parseTemplates\<close> (its result pair for the given
  arguments) and the outcome of rendering and writing one task (\<^verbatim>\<open>nil\<close> or an error).
\<close>

record ('s, 't) env =
  parseArgs :: "args \<times> error option"
  parseTemplates :: "args \<Rightarrow> 't \<times> error option"
  render :: "('s, 't) task \<Rightarrow> error option"

section \<open>The state of a run\<close>

text \<open>
  A goroutine started by \<^verbatim>\<open>go\<close> is rendering its task, then holds the result it has to
  send, then has exited.
\<close>

datatype ('s, 't) goroutine =
    Rendering "('s, 't) task"
  | Sending "error option"
  | Exited

text \<open>What a run does that can be observed from outside, in the order it happens.\<close>

datatype ('s, 't) event =
    EvParseArgs
  | EvUsage
  | EvParseTemplates
  | EvGo "('s, 't) task"
  | EvRender "('s, 't) task" "error option"
  | EvSend nat "error option"
  | EvRecv "error option"

text \<open>
  The state: the \<^verbatim>\<open>go\<close> statements the main flow has not reached yet (\<open>todo\<close>), the local
  variables \<^verbatim>\<open>totalGoroutines\<close>, \<^verbatim>\<open>i\<close> (\<open>recvd\<close>) and \<^verbatim>\<open>errors\<close>, the goroutines started so
  far, the buffer of \<^verbatim>\<open>errChan\<close>, the value \<^verbatim>\<open>Document\<close> has returned if it has, and the
  events so far.
\<close>

record ('s, 't) state =
  todo :: "('s, 't) task list"
  totalGoroutines :: nat
  goroutines :: "('s, 't) goroutine list"
  errChan :: "error option list"
  recvd :: nat
  errors :: "error list"
  returned :: "error list option"
  trace :: "('s, 't) event list"

text \<open>\<^verbatim>\<open>errChan := make(chan error, 1)\<close>: the buffer holds one value.\<close>

definition errChan_cap :: nat where
  "errChan_cap = 1"

subsection \<open>The sequential start of \<^verbatim>\<open>Document\<close> (lines 80 to 110)\<close>

definition halted :: "error list \<Rightarrow> ('s, 't) event list \<Rightarrow> ('s, 't) state" where
  "halted errs evs =
     \<lparr>todo = [], totalGoroutines = 0, goroutines = [], errChan = [], recvd = 0,
      errors = errs, returned = Some errs, trace = evs\<rparr>"

definition dispatching :: "('s, 't) task list \<Rightarrow> ('s, 't) event list \<Rightarrow> ('s, 't) state" where
  "dispatching ts evs =
     \<lparr>todo = ts, totalGoroutines = 0, goroutines = [], errChan = [], recvd = 0,
      errors = [], returned = None, trace = evs\<rparr>"

definition Document_start ::
  "('s, 't) env \<Rightarrow> 's Provider \<Rightarrow> string list \<Rightarrow> string list \<Rightarrow> ('s, 't) state" where
  "Document_start env p rkeys dkeys =
     (case parseArgs env of
        (a, Some argsErr) \<Rightarrow> halted [argsErr] [EvParseArgs]
      | (a, None) \<Rightarrow>
          if help a then halted [] [EvParseArgs, EvUsage]
          else
            (case parseTemplates env a of
               (templates, Some tmplErr) \<Rightarrow> halted [tmplErr] [EvParseArgs, EvParseTemplates]
             | (templates, None) \<Rightarrow>
                 dispatching (tasks p a templates rkeys dkeys) [EvParseArgs, EvParseTemplates]))"

subsection \<open>The steps of the main flow (lines 112 to 199)\<close>

text \<open>\<^verbatim>\<open>totalGoroutines += 1; go ...\<close>: the next goroutine is started.\<close>

definition submit :: "('s, 't) state \<Rightarrow> ('s, 't) state option" where
  "submit s =
     (case returned s of
        Some errs \<Rightarrow> None
      | None \<Rightarrow>
          (case todo s of
             [] \<Rightarrow> None
           | t # ts \<Rightarrow>
               Some (s\<lparr>todo := ts,
                       totalGoroutines := totalGoroutines s + 1,
                       goroutines := goroutines s @ [Rendering t],
                       trace := trace s @ [EvGo t]\<rparr>)))"

text \<open>
  One turn of the loop of line 193: \<^verbatim>\<open>err := <-errChan\<close> takes the oldest value of the
  buffer (and waits while there is none); a non-nil value is appended to \<^verbatim>\<open>errors\<close>.
\<close>

definition receive :: "('s, 't) state \<Rightarrow> ('s, 't) state option" where
  "receive s =
     (if returned s = None \<and> todo s = [] \<and> recvd s < totalGoroutines s then
        (case errChan s of
           [] \<Rightarrow> None
         | r # rest \<Rightarrow>
             Some (s\<lparr>errChan := rest,
                     recvd := recvd s + 1,
                     errors := errors s @ (case r of None \<Rightarrow> [] | Some e \<Rightarrow> [e]),
                     trace := trace s @ [EvRecv r]\<rparr>))
      else None)"

text \<open>\<^verbatim>\<open>return errors\<close> of line 199, once the loop condition fails.\<close>

definition finish :: "('s, 't) state \<Rightarrow> ('s, 't) state option" where
  "finish s =
     (if returned s = None \<and> todo s = [] \<and> \<not> recvd s < totalGoroutines s then
        Some (s\<lparr>returned := Some (errors s)\<rparr>)
      else None)"

subsection \<open>The steps of a goroutine\<close>

text \<open>
  Modelled from the spec: the functions \<^verbatim>\<open>generateMkdocsYml\<close> and \<^verbatim>\<open>generateSchemaDoc\<close>
  that the goroutines run are outside \<^verbatim>\<open>autodoc.go\<close>. By the spec a worker renders its
  task through the template set, writes the output file and deposits its single result
  on the completion channel exactly once. \<open>work\<close> is the rendering and writing, with the
  outcome the environment gives; \<open>send\<close> is the deposit, which a Go channel lets through
  only while its buffer has room (the sender waits otherwise).
\<close>

definition work :: "('s, 't) env \<Rightarrow> nat \<Rightarrow> ('s, 't) state \<Rightarrow> ('s, 't) state option" where
  "work env k s =
     (if k < length (goroutines s) then
        (case goroutines s ! k of
           Rendering t \<Rightarrow>
             Some (s\<lparr>goroutines := (goroutines s)[k := Sending (render env t)],
                     trace := trace s @ [EvRender t (render env t)]\<rparr>)
         | Sending r \<Rightarrow> None
         | Exited \<Rightarrow> None)
      else None)"

definition send :: "nat \<Rightarrow> ('s, 't) state \<Rightarrow> ('s, 't) state option" where
  "send k s =
     (if k < length (goroutines s) then
        (case goroutines s ! k of
           Rendering t \<Rightarrow> None
         | Sending r \<Rightarrow>
             if length (errChan s) < errChan_cap then
               Some (s\<lparr>goroutines := (goroutines s)[k := Exited],
                       errChan := errChan s @ [r],
                       trace := trace s @ [EvSend k r]\<rparr>)
             else None
         | Exited \<Rightarrow> None)
      else None)"

text \<open>A goroutine that has its result ready and finds the buffer full waits on its send.\<close>

definition blocked_on_send :: "nat \<Rightarrow> ('s, 't) state \<Rightarrow> bool" where
  "blocked_on_send k s =
     (k < length (goroutines s) \<and>
      (case goroutines s ! k of
         Rendering t \<Rightarrow> False
       | Sending r \<Rightarrow> \<not> length (errChan s) < errChan_cap
       | Exited \<Rightarrow> False))"

subsection \<open>Runs\<close>

text \<open>
  The scheduler picks which step happens next; a run is the list of its picks. A pick
  that cannot happen in the state it meets makes the list no run (\<^term>\<open>None\<close>).
\<close>

datatype action = Submit | Work nat | Send nat | Recv | Return

fun step :: "('s, 't) env \<Rightarrow> action \<Rightarrow> ('s, 't) state \<Rightarrow> ('s, 't) state option" where
  "step env Submit s = submit s"
| "step env (Work k) s = work env k s"
| "step env (Send k) s = send k s"
| "step env Recv s = receive s"
| "step env Return s = finish s"

fun exec :: "('s, 't) env \<Rightarrow> action list \<Rightarrow> ('s, 't) state \<Rightarrow> ('s, 't) state option" where
  "exec env [] s = Some s"
| "exec env (a # as) s =
     (case step env a s of None \<Rightarrow> None | Some s' \<Rightarrow> exec env as s')"

text \<open>
  The run of \<^verbatim>\<open>Document\<close> under a schedule, and the error list it returns (\<^term>\<open>None\<close>
  while it has not returned).
\<close>

definition Document_run ::
  "('s, 't) env \<Rightarrow> 's Provider \<Rightarrow> string list \<Rightarrow> string list \<Rightarrow> action list
     \<Rightarrow> ('s, 't) state option" where
  "Document_run env p rkeys dkeys sched = exec env sched (Document_start env p rkeys dkeys)"

definition Document ::
  "('s, 't) env \<Rightarrow> 's Provider \<Rightarrow> string list \<Rightarrow> string list \<Rightarrow> action list
     \<Rightarrow> error list option" where
  "Document env p rkeys dkeys sched =
     (case Document_run env p rkeys dkeys sched of None \<Rightarrow> None | Some s \<Rightarrow> returned s)"

subsection \<open>What the events of a run say\<close>

definition submitted :: "('s, 't) event list \<Rightarrow> ('s, 't) task list" where
  "submitted evs = concat (map (\<lambda>e. case e of EvGo t \<Rightarrow> [t] | _ \<Rightarrow> []) evs)"

definition rendered :: "('s, 't) event list \<Rightarrow> (('s, 't) task \<times> error option) list" where
  "rendered evs = concat (map (\<lambda>e. case e of EvRender t r \<Rightarrow> [(t, r)] | _ \<Rightarrow> []) evs)"

definition arrived :: "('s, 't) event list \<Rightarrow> error option list" where
  "arrived evs = concat (map (\<lambda>e. case e of EvRecv r \<Rightarrow> [r] | _ \<Rightarrow> []) evs)"

definition usages :: "('s, 't) event list \<Rightarrow> nat" where
  "usages evs = length (filter (\<lambda>e. e = EvUsage) evs)"

definition template_loads :: "('s, 't) event list \<Rightarrow> nat" where
  "template_loads evs = length (filter (\<lambda>e. e = EvParseTemplates) evs)"

text \<open>The output files written: one by every task rendered without error, at its path.\<close>

definition files_written :: "('s, 't) event list \<Rightarrow> string list" where
  "files_written evs =
     concat (map (\<lambda>e. case e of EvRender t None \<Rightarrow> [task_outFile t] | _ \<Rightarrow> []) evs)"

text \<open>The number of different files among them.\<close>

definition count_files :: "('s, 't) event list \<Rightarrow> nat" where
  "count_files evs = length (remdups (files_written evs))"

definition is_recv :: "('s, 't) event \<Rightarrow> bool" where
  "is_recv e = (case e of EvRecv r \<Rightarrow> True | _ \<Rightarrow> False)"

text \<open>The non-nil values of a list of results, in order.\<close>

definition non_nil :: "error option list \<Rightarrow> error list" where
  "non_nil rs = concat (map (\<lambda>r. case r of None \<Rightarrow> [] | Some e \<Rightarrow> [e]) rs)"

section \<open>Accounting for the goroutines\<close>

text \<open>
  Quantities of a state that the proofs follow through a run: how many goroutines are
  still alive, which results and which renderings they still owe, and how many steps the
  run has left.
\<close>

fun live :: "('s, 't) goroutine \<Rightarrow> nat" where
  "live (Rendering t) = 1"
| "live (Sending r) = 1"
| "live Exited = 0"

fun effort :: "('s, 't) goroutine \<Rightarrow> nat" where
  "effort (Rendering t) = 3"
| "effort (Sending r) = 2"
| "effort Exited = 0"

fun owed :: "('s, 't) env \<Rightarrow> ('s, 't) goroutine \<Rightarrow> error option multiset" where
  "owed env (Rendering t) = {#render env t#}"
| "owed env (Sending r) = {#r#}"
| "owed env Exited = {#}"

fun unrendered :: "('s, 't) goroutine \<Rightarrow> ('s, 't) task multiset" where
  "unrendered (Rendering t) = {#t#}"
| "unrendered (Sending r) = {#}"
| "unrendered Exited = {#}"

definition steps_left :: "('s, 't) state \<Rightarrow> nat" where
  "steps_left s =
     4 * length (todo s) + sum_list (map effort (goroutines s)) + length (errChan s)
     + (if returned s = None then 1 else 0)"

definition inv_submitted :: "('s, 't) task list \<Rightarrow> ('s, 't) state \<Rightarrow> bool" where
  "inv_submitted ts s =
     (submitted (trace s) @ todo s = ts \<and> totalGoroutines s = length (submitted (trace s)))"

definition inv_count :: "('s, 't) state \<Rightarrow> bool" where
  "inv_count s =
     (recvd s + length (errChan s) + sum_list (map live (goroutines s)) = totalGoroutines s)"

definition inv_errors :: "('s, 't) state \<Rightarrow> bool" where
  "inv_errors s =
     (length (arrived (trace s)) = recvd s \<and> errors s = non_nil (arrived (trace s)))"

definition inv_results :: "('s, 't) env \<Rightarrow> ('s, 't) task list \<Rightarrow> ('s, 't) state \<Rightarrow> bool" where
  "inv_results env ts s =
     (mset (map (render env) (todo s)) + sum_list (map (owed env) (goroutines s))
        + mset (errChan s) + mset (arrived (trace s)) = mset (map (render env) ts))"

definition inv_rendered :: "('s, 't) env \<Rightarrow> ('s, 't) task list \<Rightarrow> ('s, 't) state \<Rightarrow> bool" where
  "inv_rendered env ts s =
     (mset (todo s) + sum_list (map unrendered (goroutines s))
        + mset (map fst (rendered (trace s))) = mset ts \<and>
      rendered (trace s) = map (\<lambda>t. (t, render env t)) (map fst (rendered (trace s))))"

definition inv_returned :: "('s, 't) state \<Rightarrow> bool" where
  "inv_returned s =
     (case returned s of
        None \<Rightarrow> True
      | Some errs \<Rightarrow> errs = errors s \<and> todo s = [] \<and> recvd s = totalGoroutines s)"

definition inv_cap :: "('s, 't) state \<Rightarrow> bool" where
  "inv_cap s = (length (errChan s) \<le> errChan_cap)"

text \<open>
  A run gets past argument parsing, the help flag and template loading: \<^verbatim>\<open>parseArgs\<close>
  gives arguments without an error, \<^verbatim>\<open>help\<close> is not set, and \<^verbatim>\<open>parseTemplates\<close> gives
  a template set without an error.
\<close>

definition reaches_dispatch :: "('s, 't) env \<Rightarrow> args \<Rightarrow> 't \<Rightarrow> bool" where
  "reaches_dispatch env a templates =
     (parseArgs env = (a, None) \<and> \<not> help a \<and> parseTemplates env a = (templates, None))"

text \<open>The invariants of a run together.\<close>

definition consistent :: "('s, 't) env \<Rightarrow> ('s, 't) task list \<Rightarrow> ('s, 't) state \<Rightarrow> bool" where
  "consistent env ts s =
     (inv_submitted ts s \<and> inv_count s \<and> inv_errors s \<and> inv_results env ts s \<and>
      inv_rendered env ts s \<and> inv_cap s \<and> inv_returned s)"

text \<open>
  No task is submitted after a completion has been received: once the events hold a
  receive, nothing is left to submit and the events before the first receive hold every
  submission.
\<close>

definition inv_order :: "('s, 't) task list \<Rightarrow> ('s, 't) state \<Rightarrow> bool" where
  "inv_order ts s =
     (arrived (trace s) = [] \<or>
      (todo s = [] \<and> submitted (takeWhile (\<lambda>e. \<not> is_recv e) (trace s)) = ts))"

section \<open>Example inputs\<close>

text \<open>
  The example of the spec's testable properties, with one data source added: provider
  \<^verbatim>\<open>acme\<close>, resource \<^verbatim>\<open>acme_widget\<close>, data source \<^verbatim>\<open>acme_image\<close>, every option at its
  default but the root directory. In the first environment every call succeeds; the
  others fail template loading, fail argument parsing with \<^verbatim>\<open>-help\<close> given, and ask
  for help.
\<close>

definition example_args :: args where
  "example_args =
     \<lparr>help = False, providerName = ''acme'', rootDir = ''/srv/site'', docsDir = ''docs'',
      templatesDir = ''templates'', templateFileExt = ''.template''\<rparr>"

definition example_provider :: "unit Provider" where
  "example_provider =
     \<lparr>Schema = (),
      ResourcesMap = [''acme_widget'' \<mapsto> Resource ()],
      DataSourcesMap = [''acme_image'' \<mapsto> Resource ()]\<rparr>"

definition example_env :: "(unit, unit) env" where
  "example_env =
     \<lparr>parseArgs = (example_args, None),
      parseTemplates = (\<lambda>a. ((), None)),
      render = (\<lambda>t. None)\<rparr>"

definition example_schedule :: "action list" where
  "example_schedule =
     [Submit, Submit, Submit, Submit, Work 1, Work 0, Send 1, Recv, Send 0, Work 3, Recv,
      Work 2, Send 3, Recv, Send 2, Recv, Return]"

definition no_templates_env :: "(unit, unit) env" where
  "no_templates_env =
     example_env\<lparr>parseTemplates := (\<lambda>a. ((), Some (Error ''no templates directory'')))\<rparr>"

definition bad_flag_env :: "(unit, unit) env" where
  "bad_flag_env =
     example_env\<lparr>parseArgs := (example_args\<lparr>help := True\<rparr>, Some (Error ''bad flag''))\<rparr>"

definition help_env :: "(unit, unit) env" where
  "help_env = example_env\<lparr>parseArgs := (example_args\<lparr>help := True\<rparr>, None)\<rparr>"

text \<open>
  An environment in which the rendering of the config file and of the index fails, and
  a schedule after which the second goroutine holds its result while the buffer is full.
\<close>

definition failing_env :: "(unit, unit) env" where
  "failing_env =
     example_env\<lparr>render :=
       (\<lambda>t. case task_role t of
               ConfigFile \<Rightarrow> Some (Error ''config'')
             | IndexDoc \<Rightarrow> Some (Error ''index'')
             | ResourceDoc \<Rightarrow> None
             | DataSourceDoc \<Rightarrow> None)\<rparr>"

definition blocking_schedule :: "action list" where
  "blocking_schedule = [Submit, Submit, Work 0, Work 1, Send 0]"

text \<open>
  A provider with two resource names that \<^verbatim>\<open>filepath.Join\<close> sends to the same path.
\<close>

definition colliding_provider :: "unit Provider" where
  "colliding_provider =
     \<lparr>Schema = (),
      ResourcesMap = [''acme_widget'' \<mapsto> Resource (), ''/acme_widget'' \<mapsto> Resource ()],
      DataSourcesMap = Map.empty\<rparr>"

section \<open>Steps and invariants\<close>

lemma sum_list_map_update:
  fixes f :: "'a \<Rightarrow> 'b::comm_monoid_add"
  shows "k < length xs \<Longrightarrow>
    sum_list (map f (xs[k := y])) + f (xs ! k) = sum_list (map f xs) + f y"
proof (induction xs arbitrary: k)
  case Nil
  then show ?case by simp
next
  case (Cons x xs)
  show ?case
  proof (cases k)
    case 0
    then show ?thesis by (simp add: ac_simps)
  next
    case (Suc j)
    with Cons.prems have "j < length xs" by simp
    from Cons.IH[OF this] have "f x + (sum_list (map f (xs[j := y])) + f (xs ! j)) = f x + (sum_list (map f xs) + f y)"
      by simp
    with Suc show ?thesis by (simp add: add.assoc)
  qed
qed

lemma submitted_snoc:
  "submitted (evs @ [e]) = submitted evs @ (case e of EvGo t \<Rightarrow> [t] | _ \<Rightarrow> [])"
  by (simp add: submitted_def)

lemma rendered_snoc:
  "rendered (evs @ [e]) = rendered evs @ (case e of EvRender t r \<Rightarrow> [(t, r)] | _ \<Rightarrow> [])"
  by (simp add: rendered_def)

lemma arrived_snoc:
  "arrived (evs @ [e]) = arrived evs @ (case e of EvRecv r \<Rightarrow> [r] | _ \<Rightarrow> [])"
  by (simp add: arrived_def)

lemma non_nil_snoc:
  "non_nil (rs @ [r]) = non_nil rs @ (case r of None \<Rightarrow> [] | Some e \<Rightarrow> [e])"
  by (simp add: non_nil_def)

lemmas snocs = submitted_snoc rendered_snoc arrived_snoc non_nil_snoc

lemma submit_SomeD:
  assumes "submit s = Some s'"
  obtains t ts where "returned s = None" and "todo s = t # ts"
    and "s' = s\<lparr>todo := ts, totalGoroutines := totalGoroutines s + 1,
                 goroutines := goroutines s @ [Rendering t], trace := trace s @ [EvGo t]\<rparr>"
  using assms by (auto simp: submit_def split: option.splits list.splits)

lemma receive_SomeD:
  assumes "receive s = Some s'"
  obtains r rest where "returned s = None" and "todo s = []" and "recvd s < totalGoroutines s"
    and "errChan s = r # rest"
    and "s' = s\<lparr>errChan := rest, recvd := recvd s + 1,
                 errors := errors s @ (case r of None \<Rightarrow> [] | Some e \<Rightarrow> [e]),
                 trace := trace s @ [EvRecv r]\<rparr>"
  using assms by (auto simp: receive_def split: if_splits list.splits)

lemma finish_SomeD:
  assumes "finish s = Some s'"
  obtains "returned s = None" and "todo s = []" and "\<not> recvd s < totalGoroutines s"
    and "s' = s\<lparr>returned := Some (errors s)\<rparr>"
  using assms by (auto simp: finish_def split: if_splits)

lemma work_SomeD:
  assumes "work env k s = Some s'"
  obtains t where "k < length (goroutines s)" and "goroutines s ! k = Rendering t"
    and "s' = s\<lparr>goroutines := (goroutines s)[k := Sending (render env t)],
                 trace := trace s @ [EvRender t (render env t)]\<rparr>"
  using assms by (auto simp: work_def split: if_splits goroutine.splits)

lemma send_SomeD:
  assumes "send k s = Some s'"
  obtains r where "k < length (goroutines s)" and "goroutines s ! k = Sending r"
    and "length (errChan s) < errChan_cap"
    and "s' = s\<lparr>goroutines := (goroutines s)[k := Exited], errChan := errChan s @ [r],
                 trace := trace s @ [EvSend k r]\<rparr>"
  using assms by (auto simp: send_def split: if_splits goroutine.splits)

lemma step_cases:
  assumes "step env a s = Some s'"
  obtains (Submit) "a = Submit" "submit s = Some s'"
  | (Work) k where "a = Work k" "work env k s = Some s'"
  | (Send) k where "a = Send k" "send k s = Some s'"
  | (Recv) "a = Recv" "receive s = Some s'"
  | (Return) "a = Return" "finish s = Some s'"
  using assms by (cases a) simp_all

lemma exec_invariant:
  assumes "exec env sched s = Some s'" and "P s"
    and "\<And>a u u'. P u \<Longrightarrow> step env a u = Some u' \<Longrightarrow> P u'"
  shows "P s'"
  using assms(1,2)
proof (induction sched arbitrary: s)
  case Nil
  then show ?case by simp
next
  case (Cons a sched)
  from Cons.prems(1) obtain u where u: "step env a s = Some u" and r: "exec env sched u = Some s'"
    by (auto split: option.splits)
  from assms(3)[OF Cons.prems(2) u] have "P u" .
  from Cons.IH[OF r this] show ?case .
qed

lemma inv_submitted_step:
  assumes "inv_submitted ts s" and "step env a s = Some s'"
  shows "inv_submitted ts s'"
  using assms(2)
proof (cases rule: step_cases)
  case Submit
  from Submit(2) show ?thesis
    by (rule submit_SomeD) (use assms(1) in \<open>simp add: inv_submitted_def snocs\<close>)
next
  case (Work k)
  from Work(2) show ?thesis
    by (rule work_SomeD) (use assms(1) in \<open>simp add: inv_submitted_def snocs\<close>)
next
  case (Send k)
  from Send(2) show ?thesis
    by (rule send_SomeD) (use assms(1) in \<open>simp add: inv_submitted_def snocs\<close>)
next
  case Recv
  from Recv(2) show ?thesis
    by (rule receive_SomeD) (use assms(1) in \<open>simp add: inv_submitted_def snocs\<close>)
next
  case Return
  from Return(2) show ?thesis
    by (rule finish_SomeD) (use assms(1) in \<open>simp add: inv_submitted_def snocs\<close>)
qed

lemma inv_errors_step:
  assumes "inv_errors s" and "step env a s = Some s'"
  shows "inv_errors s'"
  using assms(2)
proof (cases rule: step_cases)
  case Submit
  from Submit(2) show ?thesis
    by (rule submit_SomeD) (use assms(1) in \<open>simp add: inv_errors_def snocs\<close>)
next
  case (Work k)
  from Work(2) show ?thesis
    by (rule work_SomeD) (use assms(1) in \<open>simp add: inv_errors_def snocs\<close>)
next
  case (Send k)
  from Send(2) show ?thesis
    by (rule send_SomeD) (use assms(1) in \<open>simp add: inv_errors_def snocs\<close>)
next
  case Recv
  from Recv(2) show ?thesis
    by (rule receive_SomeD) (use assms(1) in \<open>simp add: inv_errors_def snocs\<close>)
next
  case Return
  from Return(2) show ?thesis
    by (rule finish_SomeD) (use assms(1) in \<open>simp add: inv_errors_def snocs\<close>)
qed

lemma inv_count_step:
  assumes "inv_count s" and "step env a s = Some s'"
  shows "inv_count s'"
  using assms(2)
proof (cases rule: step_cases)
  case Submit
  from Submit(2) show ?thesis
    by (rule submit_SomeD) (use assms(1) in \<open>simp add: inv_count_def\<close>)
next
  case (Work k)
  from Work(2) show ?thesis
  proof (rule work_SomeD)
    fix t
    assume k: "k < length (goroutines s)" and g: "goroutines s ! k = Rendering t"
      and s': "s' = s\<lparr>goroutines := (goroutines s)[k := Sending (render env t)],
                 trace := trace s @ [EvRender t (render env t)]\<rparr>"
    from sum_list_map_update[OF k, of live "Sending (render env t)"] g
    have "sum_list (map live ((goroutines s)[k := Sending (render env t)]))
            = sum_list (map live (goroutines s))"
      by simp
    with assms(1) show ?thesis by (simp add: inv_count_def s')
  qed
next
  case (Send k)
  from Send(2) show ?thesis
  proof (rule send_SomeD)
    fix r
    assume k: "k < length (goroutines s)" and g: "goroutines s ! k = Sending r"
      and s': "s' = s\<lparr>goroutines := (goroutines s)[k := Exited], errChan := errChan s @ [r],
                 trace := trace s @ [EvSend k r]\<rparr>"
    from sum_list_map_update[OF k, of live Exited] g
    have "sum_list (map live ((goroutines s)[k := Exited])) + 1
            = sum_list (map live (goroutines s))"
      by simp
    with assms(1) show ?thesis by (simp add: inv_count_def s')
  qed
next
  case Recv
  from Recv(2) show ?thesis
    by (rule receive_SomeD) (use assms(1) in \<open>simp add: inv_count_def\<close>)
next
  case Return
  from Return(2) show ?thesis
    by (rule finish_SomeD) (use assms(1) in \<open>simp add: inv_count_def\<close>)
qed

lemma inv_results_step:
  assumes "inv_results env ts s" and "step env a s = Some s'"
  shows "inv_results env ts s'"
  using assms(2)
proof (cases rule: step_cases)
  case Submit
  from Submit(2) show ?thesis
    by (rule submit_SomeD) (use assms(1) in \<open>simp add: inv_results_def snocs\<close>)
next
  case (Work k)
  from Work(2) show ?thesis
  proof (rule work_SomeD)
    fix t
    assume k: "k < length (goroutines s)" and g: "goroutines s ! k = Rendering t"
      and s': "s' = s\<lparr>goroutines := (goroutines s)[k := Sending (render env t)],
                 trace := trace s @ [EvRender t (render env t)]\<rparr>"
    from sum_list_map_update[OF k, of "owed env" "Sending (render env t)"] g
    have "sum_list (map (owed env) ((goroutines s)[k := Sending (render env t)]))
            = sum_list (map (owed env) (goroutines s))"
      by simp
    with assms(1) show ?thesis by (simp add: inv_results_def s' snocs)
  qed
next
  case (Send k)
  from Send(2) show ?thesis
  proof (rule send_SomeD)
    fix r
    assume k: "k < length (goroutines s)" and g: "goroutines s ! k = Sending r"
      and s': "s' = s\<lparr>goroutines := (goroutines s)[k := Exited], errChan := errChan s @ [r],
                 trace := trace s @ [EvSend k r]\<rparr>"
    from sum_list_map_update[OF k, of "owed env" Exited] g
    have "sum_list (map (owed env) (goroutines s))
            = sum_list (map (owed env) ((goroutines s)[k := Exited])) + {#r#}"
      by simp
    with assms(1) show ?thesis by (simp add: inv_results_def s' snocs)
  qed
next
  case Recv
  from Recv(2) show ?thesis
    by (rule receive_SomeD) (use assms(1) in \<open>simp add: inv_results_def snocs\<close>)
next
  case Return
  from Return(2) show ?thesis
    by (rule finish_SomeD) (use assms(1) in \<open>simp add: inv_results_def\<close>)
qed

lemma inv_rendered_step:
  assumes "inv_rendered env ts s" and "step env a s = Some s'"
  shows "inv_rendered env ts s'"
  using assms(2)
proof (cases rule: step_cases)
  case Submit
  from Submit(2) show ?thesis
    by (rule submit_SomeD) (use assms(1) in \<open>simp add: inv_rendered_def snocs\<close>)
next
  case (Work k)
  from Work(2) show ?thesis
  proof (rule work_SomeD)
    fix t
    assume k: "k < length (goroutines s)" and g: "goroutines s ! k = Rendering t"
      and s': "s' = s\<lparr>goroutines := (goroutines s)[k := Sending (render env t)],
                 trace := trace s @ [EvRender t (render env t)]\<rparr>"
    from sum_list_map_update[OF k, of unrendered "Sending (render env t)"] g
    have "sum_list (map unrendered (goroutines s))
            = sum_list (map unrendered ((goroutines s)[k := Sending (render env t)])) + {#t#}"
      by simp
    with assms(1) show ?thesis by (simp add: inv_rendered_def s' snocs)
  qed
next
  case (Send k)
  from Send(2) show ?thesis
  proof (rule send_SomeD)
    fix r
    assume k: "k < length (goroutines s)" and g: "goroutines s ! k = Sending r"
      and s': "s' = s\<lparr>goroutines := (goroutines s)[k := Exited], errChan := errChan s @ [r],
                 trace := trace s @ [EvSend k r]\<rparr>"
    from sum_list_map_update[OF k, of unrendered Exited] g
    have "sum_list (map unrendered ((goroutines s)[k := Exited]))
            = sum_list (map unrendered (goroutines s))"
      by simp
    with assms(1) show ?thesis by (simp add: inv_rendered_def s' snocs)
  qed
next
  case Recv
  from Recv(2) show ?thesis
    by (rule receive_SomeD) (use assms(1) in \<open>simp add: inv_rendered_def snocs\<close>)
next
  case Return
  from Return(2) show ?thesis
    by (rule finish_SomeD) (use assms(1) in \<open>simp add: inv_rendered_def\<close>)
qed

lemma inv_cap_step:
  assumes "inv_cap s" and "step env a s = Some s'"
  shows "inv_cap s'"
  using assms(2)
proof (cases rule: step_cases)
  case Submit
  from Submit(2) show ?thesis
    by (rule submit_SomeD) (use assms(1) in \<open>simp add: inv_cap_def\<close>)
next
  case (Work k)
  from Work(2) show ?thesis
    by (rule work_SomeD) (use assms(1) in \<open>simp add: inv_cap_def\<close>)
next
  case (Send k)
  from Send(2) show ?thesis
    by (rule send_SomeD) (simp add: inv_cap_def)
next
  case Recv
  from Recv(2) show ?thesis
    by (rule receive_SomeD) (use assms(1) in \<open>simp add: inv_cap_def\<close>)
next
  case Return
  from Return(2) show ?thesis
    by (rule finish_SomeD) (use assms(1) in \<open>simp add: inv_cap_def\<close>)
qed

lemma inv_returned_step:
  assumes "inv_returned s" and "inv_count s" and "step env a s = Some s'"
  shows "inv_returned s'"
  using assms(3)
proof (cases rule: step_cases)
  case Submit
  from Submit(2) show ?thesis
    by (rule submit_SomeD) (simp add: inv_returned_def)
next
  case (Work k)
  from Work(2) show ?thesis
    by (rule work_SomeD) (use assms(1) in \<open>simp add: inv_returned_def split: option.splits\<close>)
next
  case (Send k)
  from Send(2) show ?thesis
    by (rule send_SomeD) (use assms(1) in \<open>simp add: inv_returned_def split: option.splits\<close>)
next
  case Recv
  from Recv(2) show ?thesis
    by (rule receive_SomeD) (simp add: inv_returned_def)
next
  case Return
  from Return(2) show ?thesis
  proof (rule finish_SomeD)
    assume t: "todo s = []" and n: "\<not> recvd s < totalGoroutines s"
      and s': "s' = s\<lparr>returned := Some (errors s)\<rparr>"
    from assms(2) have "recvd s \<le> totalGoroutines s" by (simp add: inv_count_def)
    with n have "recvd s = totalGoroutines s" by simp
    with t show ?thesis by (simp add: inv_returned_def s')
  qed
qed

lemma steps_left_step:
  assumes "step env a s = Some s'"
  shows "steps_left s = Suc (steps_left s')"
  using assms
proof (cases rule: step_cases)
  case Submit
  from Submit(2) show ?thesis
    by (rule submit_SomeD) (simp add: steps_left_def)
next
  case (Work k)
  from Work(2) show ?thesis
  proof (rule work_SomeD)
    fix t
    assume k: "k < length (goroutines s)" and g: "goroutines s ! k = Rendering t"
      and s': "s' = s\<lparr>goroutines := (goroutines s)[k := Sending (render env t)],
                 trace := trace s @ [EvRender t (render env t)]\<rparr>"
    from sum_list_map_update[OF k, of effort "Sending (render env t)"] g
    have "sum_list (map effort (goroutines s))
            = Suc (sum_list (map effort ((goroutines s)[k := Sending (render env t)])))"
      by simp
    then show ?thesis by (simp add: steps_left_def s')
  qed
next
  case (Send k)
  from Send(2) show ?thesis
  proof (rule send_SomeD)
    fix r
    assume k: "k < length (goroutines s)" and g: "goroutines s ! k = Sending r"
      and s': "s' = s\<lparr>goroutines := (goroutines s)[k := Exited], errChan := errChan s @ [r],
                 trace := trace s @ [EvSend k r]\<rparr>"
    from sum_list_map_update[OF k, of effort Exited] g
    have "sum_list (map effort (goroutines s))
            = sum_list (map effort ((goroutines s)[k := Exited])) + 2"
      by simp
    then show ?thesis by (simp add: steps_left_def s')
  qed
next
  case Recv
  from Recv(2) show ?thesis
    by (rule receive_SomeD) (simp add: steps_left_def)
next
  case Return
  from Return(2) show ?thesis
    by (rule finish_SomeD) (simp add: steps_left_def)
qed

lemma steps_left_exec:
  "exec env sched s = Some s' \<Longrightarrow> steps_left s = length sched + steps_left s'"
proof (induction sched arbitrary: s)
  case Nil
  then show ?case by simp
next
  case (Cons a sched)
  from Cons.prems obtain u where u: "step env a s = Some u" and r: "exec env sched u = Some s'"
    by (auto split: option.splits)
  from steps_left_step[OF u] Cons.IH[OF r] show ?case by simp
qed

lemma live_goroutine:
  assumes "0 < sum_list (map live gs)"
  obtains k where "k < length gs" and "gs ! k \<noteq> Exited"
proof -
  from assms have "\<exists>g \<in> set gs. live g \<noteq> 0"
    by (induction gs) auto
  then obtain g where "g \<in> set gs" and "live g \<noteq> 0" by blast
  then obtain k where "k < length gs" and "gs ! k = g" by (auto simp: in_set_conv_nth)
  with \<open>live g \<noteq> 0\<close> have "gs ! k \<noteq> Exited" by auto
  with \<open>k < length gs\<close> that show ?thesis by blast
qed

lemma all_exited:
  assumes "sum_list (map live gs) = 0"
  shows "sum_list (map (owed env) gs) = {#}" and "sum_list (map unrendered gs) = {#}"
proof -
  from assms have "\<forall>g \<in> set gs. g = Exited"
  proof (induction gs)
    case Nil
    then show ?case by simp
  next
    case (Cons g gs)
    then show ?case by (cases g) auto
  qed
  then show "sum_list (map (owed env) gs) = {#}" and "sum_list (map unrendered gs) = {#}"
    by (induction gs) auto
qed

lemma progress:
  assumes "inv_count s" and "returned s = None"
  shows "\<exists>a s'. step env a s = Some s'"
proof (cases "todo s")
  case (Cons t ts)
  with assms(2) have "step env Submit s \<noteq> None" by (simp add: submit_def)
  then show ?thesis by blast
next
  case Nil
  show ?thesis
  proof (cases "recvd s < totalGoroutines s")
    case False
    with Nil assms(2) have "step env Return s \<noteq> None" by (simp add: finish_def)
    then show ?thesis by blast
  next
    case True
    show ?thesis
    proof (cases "errChan s")
      case (Cons r rest)
      with True Nil assms(2) have "step env Recv s \<noteq> None" by (simp add: receive_def)
      then show ?thesis by blast
    next
      case empty: Nil
      with True assms(1) have "0 < sum_list (map live (goroutines s))"
        by (simp add: inv_count_def)
      then obtain k where k: "k < length (goroutines s)" and g: "goroutines s ! k \<noteq> Exited"
        by (rule live_goroutine)
      show ?thesis
      proof (cases "goroutines s ! k")
        case (Rendering t)
        with k have "step env (Work k) s \<noteq> None" by (simp add: work_def)
        then show ?thesis by blast
      next
        case (Sending r)
        with k empty have "step env (Send k) s \<noteq> None" by (simp add: send_def errChan_cap_def)
        then show ?thesis by blast
      next
        case Exited
        with g show ?thesis by simp
      qed
    qed
  qed
qed

lemma run_completes:
  assumes "inv_count s"
  shows "\<exists>sched s'. exec env sched s = Some s' \<and> returned s' \<noteq> None"
  using assms
proof (induction "steps_left s" arbitrary: s rule: less_induct)
  case less
  show ?case
  proof (cases "returned s")
    case (Some errs)
    then have "exec env [] s = Some s \<and> returned s \<noteq> None" by simp
    then show ?thesis by blast
  next
    case None
    from progress[OF less.prems None] obtain a u where u: "step env a s = Some u" by blast
    from steps_left_step[OF u] have "steps_left u < steps_left s" by simp
    moreover from inv_count_step[OF less.prems u] have "inv_count u" .
    ultimately obtain sched s' where "exec env sched u = Some s'" and "returned s' \<noteq> None"
      using less.hyps by blast
    with u have "exec env (a # sched) s = Some s' \<and> returned s' \<noteq> None" by simp
    then show ?thesis by blast
  qed
qed

section \<open>Runs of \<^verbatim>\<open>Document\<close>\<close>

lemma step_halted: "step env a (halted errs evs) = None"
  by (cases a) (simp_all add: halted_def submit_def work_def send_def receive_def finish_def)

lemma exec_halted:
  "exec env sched (halted errs evs) = (if sched = [] then Some (halted errs evs) else None)"
  by (cases sched) (simp_all add: step_halted)

lemma Document_start_dispatching:
  assumes "reaches_dispatch env a templates"
  shows "Document_start env p rkeys dkeys =
           dispatching (tasks p a templates rkeys dkeys) [EvParseArgs, EvParseTemplates]"
  using assms by (simp add: reaches_dispatch_def Document_start_def)

lemma consistent_dispatching:
  "consistent env ts (dispatching ts [EvParseArgs, EvParseTemplates])"
  by (simp add: consistent_def dispatching_def inv_submitted_def inv_count_def inv_errors_def
      inv_results_def inv_rendered_def inv_cap_def inv_returned_def submitted_def arrived_def
      rendered_def non_nil_def)

lemma consistent_step:
  assumes "consistent env ts s" and "step env a s = Some s'"
  shows "consistent env ts s'"
  using assms inv_submitted_step[of ts s env a s'] inv_count_step[of s env a s']
    inv_errors_step[of s env a s'] inv_results_step[of env ts s a s']
    inv_rendered_step[of env ts s a s'] inv_cap_step[of s env a s']
    inv_returned_step[of s env a s']
  by (simp add: consistent_def)

lemma run_consistent:
  assumes "reaches_dispatch env a templates"
    and "Document_run env p rkeys dkeys sched = Some s"
  shows "consistent env (tasks p a templates rkeys dkeys) s"
proof -
  from assms have "exec env sched (dispatching (tasks p a templates rkeys dkeys)
      [EvParseArgs, EvParseTemplates]) = Some s"
    by (simp add: Document_run_def Document_start_dispatching)
  then show ?thesis
    by (rule exec_invariant) (rule consistent_dispatching, erule (1) consistent_step)
qed

lemma Document_halted:
  assumes "Document_start env p rkeys dkeys = halted errs evs"
  shows "Document env p rkeys dkeys [] = Some errs"
    and "Document_run env p rkeys dkeys sched = Some s \<Longrightarrow> sched = [] \<and> s = halted errs evs"
proof -
  show "Document env p rkeys dkeys [] = Some errs"
    using assms by (simp add: Document_def Document_run_def halted_def)
  show "sched = [] \<and> s = halted errs evs" if "Document_run env p rkeys dkeys sched = Some s"
    using that assms by (cases "sched = []") (simp_all add: Document_run_def exec_halted)
qed

section \<open>Fatal errors and the help flag\<close>

text \<open>
  Claim C3. When argument parsing fails, or template loading fails, \<^verbatim>\<open>Document\<close> returns
  at once the list whose only element is that error: no step of the run is possible
  afterwards, so no task is submitted, no goroutine is started and no file is written.
\<close>

theorem fatal_error_short_circuits:
  assumes "snd (parseArgs env) = Some e \<or>
           (snd (parseArgs env) = None \<and> \<not> help (fst (parseArgs env)) \<and>
            snd (parseTemplates env (fst (parseArgs env))) = Some e)"
  shows "Document env p rkeys dkeys [] = Some [e] \<and>
         (\<forall>sched s. Document_run env p rkeys dkeys sched = Some s \<longrightarrow>
            sched = [] \<and> returned s = Some [e] \<and> totalGoroutines s = 0 \<and>
            goroutines s = [] \<and> submitted (trace s) = [] \<and> rendered (trace s) = [] \<and>
            files_written (trace s) = [])"
proof -
  obtain a argsErr where pa: "parseArgs env = (a, argsErr)"
    by (cases "parseArgs env")
  obtain tm tmplErr where pt: "parseTemplates env a = (tm, tmplErr)"
    by (cases "parseTemplates env a")
  from assms pa pt
  have "Document_start env p rkeys dkeys = halted [e] [EvParseArgs] \<or>
        Document_start env p rkeys dkeys = halted [e] [EvParseArgs, EvParseTemplates]"
    by (auto simp: Document_start_def)
  then obtain evs
    where start: "Document_start env p rkeys dkeys = halted [e] evs"
      and evs: "evs = [EvParseArgs] \<or> evs = [EvParseArgs, EvParseTemplates]"
    by blast
  from evs have quiet: "submitted evs = [] \<and> rendered evs = [] \<and> files_written evs = []"
    by (auto simp: submitted_def rendered_def files_written_def)
  have "sched = [] \<and> returned s = Some [e] \<and> totalGoroutines s = 0 \<and>
        goroutines s = [] \<and> submitted (trace s) = [] \<and> rendered (trace s) = [] \<and>
        files_written (trace s) = []"
    if "Document_run env p rkeys dkeys sched = Some s" for sched s
    using Document_halted(2)[OF start that] quiet by (simp add: halted_def)
  with Document_halted(1)[OF start] show ?thesis by blast
qed

theorem fatal_error_short_circuits_witness:
  "Document no_templates_env example_provider [''acme_widget''] [''acme_image''] []
     = Some [Error ''no templates directory''] \<and>
   Document bad_flag_env example_provider [''acme_widget''] [''acme_image''] []
     = Some [Error ''bad flag''] \<and>
   Document_run no_templates_env example_provider [''acme_widget''] [''acme_image''] [Submit]
     = None"
proof -
  have h1: "snd (parseArgs no_templates_env) = Some (Error ''no templates directory'') \<or>
           (snd (parseArgs no_templates_env) = None \<and> \<not> help (fst (parseArgs no_templates_env)) \<and>
            snd (parseTemplates no_templates_env (fst (parseArgs no_templates_env)))
              = Some (Error ''no templates directory''))"
    by (simp add: no_templates_env_def example_env_def example_args_def)
  have h2: "snd (parseArgs bad_flag_env) = Some (Error ''bad flag'') \<or>
           (snd (parseArgs bad_flag_env) = None \<and> \<not> help (fst (parseArgs bad_flag_env)) \<and>
            snd (parseTemplates bad_flag_env (fst (parseArgs bad_flag_env)))
              = Some (Error ''bad flag''))"
    by (simp add: bad_flag_env_def example_env_def)
  note c1 = fatal_error_short_circuits[OF h1, of example_provider "[''acme_widget'']" "[''acme_image'']"]
  note c2 = fatal_error_short_circuits[OF h2, of example_provider "[''acme_widget'']" "[''acme_image'']"]
  from c1 have "Document_run no_templates_env example_provider [''acme_widget''] [''acme_image'']
      [Submit] = None"
    by (cases "Document_run no_templates_env example_provider [''acme_widget''] [''acme_image'']
      [Submit]") auto
  with c1 c2 show ?thesis by simp
qed

text \<open>
  Claim C7. When argument parsing succeeds and the help flag is set, \<^verbatim>\<open>Document\<close> prints
  the usage text and returns the empty error list (exit code 0 by the exit contract):
  the events of the run are the argument parsing and the usage text, so templates are
  not loaded and no task is submitted.
\<close>

theorem help_prints_usage_only:
  assumes "parseArgs env = (a, None)" and "help a"
  shows "Document env p rkeys dkeys [] = Some [] \<and>
         map_option exitStatus (Document env p rkeys dkeys []) = Some ExitSuccess \<and>
         (\<forall>sched s. Document_run env p rkeys dkeys sched = Some s \<longrightarrow>
            sched = [] \<and> trace s = [EvParseArgs, EvUsage] \<and> usages (trace s) = 1 \<and>
            template_loads (trace s) = 0 \<and> submitted (trace s) = [] \<and>
            goroutines s = [] \<and> files_written (trace s) = [])"
proof -
  from assms have start: "Document_start env p rkeys dkeys = halted [] [EvParseArgs, EvUsage]"
    by (simp add: Document_start_def)
  have "sched = [] \<and> trace s = [EvParseArgs, EvUsage] \<and> usages (trace s) = 1 \<and>
        template_loads (trace s) = 0 \<and> submitted (trace s) = [] \<and>
        goroutines s = [] \<and> files_written (trace s) = []"
    if "Document_run env p rkeys dkeys sched = Some s" for sched s
    using Document_halted(2)[OF start that]
    by (simp add: halted_def usages_def template_loads_def submitted_def files_written_def)
  moreover note a = Document_halted(1)[OF start]
  moreover from a have "map_option exitStatus (Document env p rkeys dkeys []) = Some ExitSuccess"
    by (simp add: exitStatus_def)
  ultimately show ?thesis by blast
qed

theorem help_prints_usage_only_witness:
  "parseArgs help_env = (example_args\<lparr>help := True\<rparr>, None) \<and>
   help (example_args\<lparr>help := True\<rparr>) \<and>
   Document help_env example_provider [''acme_widget''] [''acme_image''] [] = Some [] \<and>
   map_option exitStatus (Document help_env example_provider [''acme_widget''] [''acme_image''] [])
     = Some ExitSuccess"
proof -
  have h1: "parseArgs help_env = (example_args\<lparr>help := True\<rparr>, None)"
    by (simp add: help_env_def example_env_def)
  have h2: "help (example_args\<lparr>help := True\<rparr>)"
    by simp
  from help_prints_usage_only[OF h1 h2, of example_provider "[''acme_widget'']" "[''acme_image'']"]
  have "Document help_env example_provider [''acme_widget''] [''acme_image''] [] = Some [] \<and>
    map_option exitStatus (Document help_env example_provider [''acme_widget''] [''acme_image''] [])
      = Some ExitSuccess"
    by blast
  with h1 h2 show ?thesis by blast
qed

text \<open>
  Claim C10. When argument parsing fails, \<^verbatim>\<open>Document\<close> returns the parse error and does
  not print the usage text, whatever the help flag of the arguments says: the flag is
  read only after parsing has succeeded.
\<close>

theorem parse_error_precedes_help:
  assumes "parseArgs env = (a, Some e)"
  shows "Document env p rkeys dkeys [] = Some [e] \<and>
         (\<forall>sched s. Document_run env p rkeys dkeys sched = Some s \<longrightarrow>
            sched = [] \<and> returned s = Some [e] \<and> trace s = [EvParseArgs] \<and>
            usages (trace s) = 0)"
proof -
  from assms have start: "Document_start env p rkeys dkeys = halted [e] [EvParseArgs]"
    by (simp add: Document_start_def)
  have "sched = [] \<and> returned s = Some [e] \<and> trace s = [EvParseArgs] \<and> usages (trace s) = 0"
    if "Document_run env p rkeys dkeys sched = Some s" for sched s
    using Document_halted(2)[OF start that] by (simp add: halted_def usages_def)
  with Document_halted(1)[OF start] show ?thesis by blast
qed

theorem parse_error_precedes_help_witness:
  "parseArgs bad_flag_env = (example_args\<lparr>help := True\<rparr>, Some (Error ''bad flag'')) \<and>
   help (example_args\<lparr>help := True\<rparr>) \<and>
   Document bad_flag_env example_provider [''acme_widget''] [''acme_image''] []
     = Some [Error ''bad flag'']"
proof -
  have h: "parseArgs bad_flag_env = (example_args\<lparr>help := True\<rparr>, Some (Error ''bad flag''))"
    by (simp add: bad_flag_env_def example_env_def)
  from parse_error_precedes_help[OF h, of example_provider "[''acme_widget'']" "[''acme_image'']"] h
  show ?thesis by simp
qed

lemma returned_facts:
  assumes "consistent env ts s" and "returned s = Some errs"
  shows "errs = errors s" and "todo s = []" and "submitted (trace s) = ts"
    and "totalGoroutines s = length ts" and "recvd s = length ts" and "errChan s = []"
    and "sum_list (map live (goroutines s)) = 0"
    and "mset (arrived (trace s)) = mset (map (render env) ts)"
    and "mset (map fst (rendered (trace s))) = mset ts"
proof -
  from assms have r: "errs = errors s" "todo s = []" "recvd s = totalGoroutines s"
    by (simp_all add: consistent_def inv_returned_def)
  from assms(1) r(2) have sub: "submitted (trace s) = ts" "totalGoroutines s = length ts"
    by (simp_all add: consistent_def inv_submitted_def)
  from assms(1) r(3) have quiet: "errChan s = []" "sum_list (map live (goroutines s)) = 0"
    by (simp_all add: consistent_def inv_count_def)
  from assms(1) have "inv_results env ts s" and "inv_rendered env ts s"
    by (simp_all add: consistent_def)
  with r(2) quiet(1) all_exited(1)[OF quiet(2), of env] all_exited(2)[OF quiet(2)]
  have "mset (arrived (trace s)) = mset (map (render env) ts)"
    and "mset (map fst (rendered (trace s))) = mset ts"
    by (simp_all add: inv_results_def inv_rendered_def)
  with r sub quiet
  show "errs = errors s" and "todo s = []" and "submitted (trace s) = ts"
    and "totalGoroutines s = length ts" and "recvd s = length ts" and "errChan s = []"
    and "sum_list (map live (goroutines s)) = 0"
    and "mset (arrived (trace s)) = mset (map (render env) ts)"
    and "mset (map fst (rendered (trace s))) = mset ts"
    by simp_all
qed

lemma rangeTasks_length:
  assumes "range_order m ks"
  shows "length (rangeTasks mk m ks) = card (dom m)"
proof -
  have "set ks \<subseteq> dom m \<Longrightarrow> length (rangeTasks mk m ks) = length ks" for ks
    by (induction ks) (auto simp: rangeTasks_def)
  with assms have "length (rangeTasks mk m ks) = length ks"
    by (simp add: range_order_def)
  also from assms have "length ks = card (dom m)"
    by (metis distinct_card range_order_def)
  finally show ?thesis .
qed

lemma tasks_length:
  assumes "range_order (ResourcesMap p) rkeys" and "range_order (DataSourcesMap p) dkeys"
  shows "length (tasks p a templates rkeys dkeys)
           = 2 + card (dom (ResourcesMap p)) + card (dom (DataSourcesMap p))"
  using assms by (simp add: tasks_def rangeTasks_length)

lemma non_nil_filter: "non_nil rs = map the (filter (\<lambda>r. r \<noteq> None) rs)"
  by (induction rs) (auto simp: non_nil_def)

lemma non_nil_length: "length (non_nil rs) \<le> length rs"
  by (simp add: non_nil_filter)

lemma non_nil_mset:
  assumes "mset rs = mset rs'"
  shows "mset (non_nil rs) = mset (non_nil rs')"
proof -
  have "mset (non_nil xs) = image_mset the (filter_mset (\<lambda>r. r \<noteq> None) (mset xs))" for xs :: "error option list"
    by (simp add: non_nil_filter)
  with assms show ?thesis by simp
qed

lemma non_nil_empty: "non_nil rs = [] \<longleftrightarrow> (\<forall>r \<in> set rs. r = None)"
  by (simp add: non_nil_filter filter_empty_conv)

lemma no_recv_iff: "arrived evs = [] \<longleftrightarrow> (\<forall>e \<in> set evs. \<not> is_recv e)"
  by (induction evs) (auto simp: arrived_def is_recv_def split: event.splits)

lemma inv_order_step:
  assumes "inv_order ts s" and "inv_submitted ts s" and "step env a s = Some s'"
  shows "inv_order ts s'"
proof (cases "arrived (trace s) = []")
  case True
  then have all: "\<forall>e \<in> set (trace s). \<not> is_recv e" by (simp add: no_recv_iff)
  from assms(3) show ?thesis
  proof (cases rule: step_cases)
    case Submit
    from Submit(2) show ?thesis
      by (rule submit_SomeD) (use True in \<open>simp add: inv_order_def snocs\<close>)
  next
    case (Work k)
    from Work(2) show ?thesis
      by (rule work_SomeD) (use True in \<open>simp add: inv_order_def snocs\<close>)
  next
    case (Send k)
    from Send(2) show ?thesis
      by (rule send_SomeD) (use True in \<open>simp add: inv_order_def snocs\<close>)
  next
    case Recv
    from Recv(2) show ?thesis
    proof (rule receive_SomeD)
      fix r rest
      assume t: "todo s = []"
        and s': "s' = s\<lparr>errChan := rest, recvd := recvd s + 1,
                 errors := errors s @ (case r of None \<Rightarrow> [] | Some e \<Rightarrow> [e]),
                 trace := trace s @ [EvRecv r]\<rparr>"
      from all have "takeWhile (\<lambda>e. \<not> is_recv e) (trace s @ [EvRecv r]) = trace s"
        by (simp add: takeWhile_append2 is_recv_def)
      moreover from assms(2) t have "submitted (trace s) = ts"
        by (simp add: inv_submitted_def)
      ultimately show ?thesis using t by (simp add: inv_order_def s')
    qed
  next
    case Return
    from Return(2) show ?thesis
      by (rule finish_SomeD) (use True in \<open>simp add: inv_order_def\<close>)
  qed
next
  case False
  with assms(1) have t: "todo s = []"
    and sub: "submitted (takeWhile (\<lambda>e. \<not> is_recv e) (trace s)) = ts"
    by (simp_all add: inv_order_def)
  from False obtain x where x: "x \<in> set (trace s)" "\<not> \<not> is_recv x"
    by (auto simp: no_recv_iff)
  then have keep: "takeWhile (\<lambda>e. \<not> is_recv e) (trace s @ [e]) =
      takeWhile (\<lambda>e. \<not> is_recv e) (trace s)" for e
    by (simp add: takeWhile_append1)
  from assms(3) show ?thesis
  proof (cases rule: step_cases)
    case Submit
    from Submit(2) show ?thesis
      by (rule submit_SomeD) (use t in simp)
  next
    case (Work k)
    from Work(2) show ?thesis
      by (rule work_SomeD) (use t sub keep in \<open>simp add: inv_order_def\<close>)
  next
    case (Send k)
    from Send(2) show ?thesis
      by (rule send_SomeD) (use t sub keep in \<open>simp add: inv_order_def\<close>)
  next
    case Recv
    from Recv(2) show ?thesis
      by (rule receive_SomeD) (use t sub keep in \<open>simp add: inv_order_def\<close>)
  next
    case Return
    from Return(2) show ?thesis
      by (rule finish_SomeD) (use t sub in \<open>simp add: inv_order_def\<close>)
  qed
qed

lemma run_order:
  assumes "reaches_dispatch env a templates"
    and "Document_run env p rkeys dkeys sched = Some s"
  shows "inv_order (tasks p a templates rkeys dkeys) s"
proof -
  let ?ts = "tasks p a templates rkeys dkeys"
  from assms have "exec env sched (dispatching ?ts [EvParseArgs, EvParseTemplates]) = Some s"
    by (simp add: Document_run_def Document_start_dispatching)
  then have "inv_order ?ts s \<and> inv_submitted ?ts s"
  proof (rule exec_invariant)
    show "inv_order ?ts (dispatching ?ts [EvParseArgs, EvParseTemplates]) \<and>
          inv_submitted ?ts (dispatching ?ts [EvParseArgs, EvParseTemplates])"
      by (simp add: inv_order_def inv_submitted_def dispatching_def arrived_def submitted_def)
  next
    fix b u u'
    assume "inv_order ?ts u \<and> inv_submitted ?ts u" and "step env b u = Some u'"
    then show "inv_order ?ts u' \<and> inv_submitted ?ts u'"
      using inv_order_step inv_submitted_step by blast
  qed
  then show ?thesis by simp
qed

lemmas example_defs =
  Document_def Document_run_def Document_start_def example_env_def example_args_def
  example_provider_def example_schedule_def failing_env_def tasks_def rangeTasks_def
  dispatching_def submit_def work_def send_def receive_def finish_def errChan_cap_def
  mkdocsYmlTask_def providerTask_def resourceTask_def dataSourceTask_def

lemma example_dispatch:
  "reaches_dispatch example_env example_args ()"
  "reaches_dispatch failing_env example_args ()"
  by (simp_all add: reaches_dispatch_def example_env_def failing_env_def example_args_def)

lemma example_orders:
  "range_order (ResourcesMap example_provider) [''acme_widget'']"
  "range_order (DataSourcesMap example_provider) [''acme_image'']"
  by (simp_all add: range_order_def example_provider_def)

lemma failing_run:
  "\<exists>s. Document_run failing_env example_provider [''acme_widget''] [''acme_image'']
          example_schedule = Some s \<and>
       returned s = Some [Error ''index'', Error ''config''] \<and>
       arrived (trace s) = [Some (Error ''index''), Some (Error ''config''), None, None]"
  by (simp add: example_defs arrived_def)

section \<open>Collecting the completions\<close>

text \<open>
  Claim C9. When a run has got past argument parsing, the help flag and template
  loading, the error list \<^verbatim>\<open>Document\<close> returns has at most
  \<open>2 + |ResourcesMap| + |DataSourcesMap|\<close> elements: at most one error for each
  submitted task.
\<close>

theorem error_list_bounded_by_tasks:
  assumes "reaches_dispatch env a templates"
    and "range_order (ResourcesMap p) rkeys" and "range_order (DataSourcesMap p) dkeys"
    and "Document env p rkeys dkeys sched = Some errs"
  shows "length errs \<le> 2 + card (dom (ResourcesMap p)) + card (dom (DataSourcesMap p))"
proof -
  let ?ts = "tasks p a templates rkeys dkeys"
  from assms(4) obtain s where run: "Document_run env p rkeys dkeys sched = Some s"
    and ret: "returned s = Some errs"
    by (auto simp: Document_def split: option.splits)
  from run_consistent[OF assms(1) run] have c: "consistent env ?ts s" .
  then have "errors s = non_nil (arrived (trace s))" and "length (arrived (trace s)) = recvd s"
    by (simp_all add: consistent_def inv_errors_def)
  with returned_facts(1,5)[OF c ret] non_nil_length[of "arrived (trace s)"]
  have "length errs \<le> length ?ts"
    by simp
  with tasks_length[OF assms(2,3), of a templates] show ?thesis by simp
qed

theorem error_list_bounded_by_tasks_witness:
  "reaches_dispatch failing_env example_args () \<and>
   range_order (ResourcesMap example_provider) [''acme_widget''] \<and>
   range_order (DataSourcesMap example_provider) [''acme_image''] \<and>
   Document failing_env example_provider [''acme_widget''] [''acme_image''] example_schedule
     = Some [Error ''index'', Error ''config''] \<and>
   length [Error ''index'', Error ''config'']
     \<le> 2 + card (dom (ResourcesMap example_provider)) + card (dom (DataSourcesMap example_provider))"
proof -
  from failing_run
  have d: "Document failing_env example_provider [''acme_widget''] [''acme_image'']
      example_schedule = Some [Error ''index'', Error ''config'']"
    by (auto simp: Document_def)
  from error_list_bounded_by_tasks[OF example_dispatch(2) example_orders d]
    example_dispatch(2) example_orders d
  show ?thesis by blast
qed

text \<open>
  Claim C4. When \<^verbatim>\<open>Document\<close> returns after submitting \<open>N\<close> tasks, it has received
  exactly \<open>N\<close> completions, one for each task; the list it returns holds the non-nil
  errors among them, each once, and nothing else, in the order of arrival; failures do
  not end the collection; and the list is empty exactly when every task succeeded.
\<close>

theorem aggregator_drains_every_completion:
  assumes "reaches_dispatch env a templates"
    and "Document_run env p rkeys dkeys sched = Some s"
    and "returned s = Some errs"
  shows "totalGoroutines s = length (tasks p a templates rkeys dkeys) \<and>
         length (arrived (trace s)) = totalGoroutines s \<and>
         errs = non_nil (arrived (trace s)) \<and>
         mset (arrived (trace s)) = mset (map (render env) (tasks p a templates rkeys dkeys)) \<and>
         mset errs = mset (non_nil (map (render env) (tasks p a templates rkeys dkeys))) \<and>
         (errs = [] \<longleftrightarrow> list_all (\<lambda>t. render env t = None) (tasks p a templates rkeys dkeys))"
proof -
  let ?ts = "tasks p a templates rkeys dkeys"
  from run_consistent[OF assms(1,2)] have c: "consistent env ?ts s" .
  note f = returned_facts[OF c assms(3)]
  from c have e: "errors s = non_nil (arrived (trace s))"
    and n: "length (arrived (trace s)) = recvd s"
    by (simp_all add: consistent_def inv_errors_def)
  from f(1) e have errs: "errs = non_nil (arrived (trace s))" by simp
  from non_nil_mset[OF f(8)] errs
  have m: "mset errs = mset (non_nil (map (render env) ?ts))" by simp
  have "errs = [] \<longleftrightarrow> mset errs = {#}" by simp
  also have "\<dots> \<longleftrightarrow> non_nil (map (render env) ?ts) = []" by (simp add: m)
  also have "\<dots> \<longleftrightarrow> list_all (\<lambda>t. render env t = None) ?ts"
    by (simp add: non_nil_empty list_all_iff)
  finally have "errs = [] \<longleftrightarrow> list_all (\<lambda>t. render env t = None) ?ts" .
  with f(4,5,8) n errs m show ?thesis by simp
qed

theorem aggregator_drains_every_completion_witness:
  "reaches_dispatch failing_env example_args () \<and>
   Document failing_env example_provider [''acme_widget''] [''acme_image''] example_schedule
     = Some [Error ''index'', Error ''config''] \<and>
   map_option (\<lambda>s. arrived (trace s))
     (Document_run failing_env example_provider [''acme_widget''] [''acme_image''] example_schedule)
     = Some [Some (Error ''index''), Some (Error ''config''), None, None] \<and>
   map_option totalGoroutines
     (Document_run failing_env example_provider [''acme_widget''] [''acme_image''] example_schedule)
     = Some 4"
proof -
  from failing_run obtain s
    where run: "Document_run failing_env example_provider [''acme_widget''] [''acme_image'']
          example_schedule = Some s"
      and ret: "returned s = Some [Error ''index'', Error ''config'']"
      and arr: "arrived (trace s) = [Some (Error ''index''), Some (Error ''config''), None, None]"
    by blast
  from aggregator_drains_every_completion[OF example_dispatch(2) run ret] arr
  have "totalGoroutines s = 4" by simp
  with run ret arr example_dispatch(2) show ?thesis by (simp add: Document_def)
qed

lemma submitted_append: "submitted (xs @ ys) = submitted xs @ submitted ys"
  by (simp add: submitted_def)

lemma run_completes_drained:
  assumes "consistent env ts s"
  shows "\<exists>more s'. exec env more s = Some s' \<and> returned s' = Some (errors s') \<and>
           submitted (trace s') = ts \<and> length (arrived (trace s')) = length ts \<and>
           recvd s' = length ts"
proof -
  from assms have "inv_count s" by (simp add: consistent_def)
  from run_completes[OF this, of env] obtain more s'
    where ex: "exec env more s = Some s'" and r: "returned s' \<noteq> None"
    by blast
  from ex assms have c: "consistent env ts s'"
    by (rule exec_invariant) (erule (1) consistent_step)
  from r obtain errs where ret: "returned s' = Some errs" by blast
  from c have n: "length (arrived (trace s')) = recvd s'"
    by (simp add: consistent_def inv_errors_def)
  from returned_facts(1,3,5)[OF c ret] ret n
  have "returned s' = Some (errors s') \<and> submitted (trace s') = ts \<and>
        length (arrived (trace s')) = length ts \<and> recvd s' = length ts"
    by simp
  with ex show ?thesis by blast
qed

text \<open>
  Claim C5. In every run the dispatcher submits all tasks before it receives any
  completion: the events from the first receive on hold no submission, and every task
  has been submitted before the first receive. Every receive is one turn of the loop
  (the number of receives is the loop counter), there are never more receives than
  submissions, and \<^verbatim>\<open>errors\<close> is built from what was received. \<^verbatim>\<open>Document\<close> returns only
  after it has received as many completions as it submitted tasks, with the channel
  empty; and every run can be continued to such a return, having drained one completion
  for each task.
\<close>

theorem submissions_precede_receives:
  assumes "reaches_dispatch env a templates"
    and "Document_run env p rkeys dkeys sched = Some s"
  shows "submitted (dropWhile (\<lambda>e. \<not> is_recv e) (trace s)) = [] \<and>
         (arrived (trace s) \<noteq> [] \<longrightarrow>
            submitted (takeWhile (\<lambda>e. \<not> is_recv e) (trace s))
              = tasks p a templates rkeys dkeys) \<and>
         (returned s \<noteq> None \<longrightarrow>
            submitted (trace s) = tasks p a templates rkeys dkeys \<and>
            length (arrived (trace s)) = length (submitted (trace s)) \<and>
            recvd s = totalGoroutines s \<and> returned s = Some (errors s)) \<and>
         length (arrived (trace s)) = recvd s \<and>
         recvd s \<le> totalGoroutines s \<and>
         totalGoroutines s = length (submitted (trace s)) \<and>
         errors s = non_nil (arrived (trace s)) \<and>
         (returned s \<noteq> None \<longrightarrow> errChan s = []) \<and>
         (\<exists>more s'. exec env more s = Some s' \<and> returned s' = Some (errors s') \<and>
            submitted (trace s') = tasks p a templates rkeys dkeys \<and>
            length (arrived (trace s')) = length (tasks p a templates rkeys dkeys) \<and>
            recvd s' = length (tasks p a templates rkeys dkeys))"
proof -
  let ?ts = "tasks p a templates rkeys dkeys"
  let ?P = "\<lambda>e. \<not> is_recv e"
  from run_consistent[OF assms] have c: "consistent env ?ts s" .
  from run_order[OF assms] have o: "inv_order ?ts s" .
  from c have sub: "submitted (trace s) @ todo s = ?ts"
    and tot: "totalGoroutines s = length (submitted (trace s))"
    and n: "length (arrived (trace s)) = recvd s"
    and e: "errors s = non_nil (arrived (trace s))"
    and cnt: "recvd s + length (errChan s) + sum_list (map live (goroutines s)) = totalGoroutines s"
    by (simp_all add: consistent_def inv_submitted_def inv_errors_def inv_count_def)
  from cnt have le: "recvd s \<le> totalGoroutines s" by linarith
  have split: "submitted (takeWhile ?P (trace s)) @ submitted (dropWhile ?P (trace s))
      = submitted (trace s)"
    by (simp add: submitted_append[symmetric])
  have first: "submitted (takeWhile ?P (trace s)) = ?ts" if "arrived (trace s) \<noteq> []"
    using o that by (simp add: inv_order_def)
  have after: "submitted (dropWhile ?P (trace s)) = []"
  proof (cases "arrived (trace s) = []")
    case True
    then have d: "dropWhile ?P (trace s) = []" by (simp add: no_recv_iff)
    show ?thesis unfolding d by (simp add: submitted_def)
  next
    case False
    with o have "todo s = []" by (simp add: inv_order_def)
    with sub split first[OF False] show ?thesis by simp
  qed
  have complete: "submitted (trace s) = ?ts \<and> length (arrived (trace s)) = length (submitted (trace s))
      \<and> recvd s = totalGoroutines s \<and> returned s = Some (errors s)"
    if "returned s \<noteq> None"
  proof -
    from that obtain errs where r: "returned s = Some errs" by blast
    from returned_facts(1,3,4,5)[OF c r] n r show ?thesis by simp
  qed
  have empty: "errChan s = []" if "returned s \<noteq> None"
  proof -
    from that obtain errs where r: "returned s = Some errs" by blast
    from returned_facts(6)[OF c r] show ?thesis .
  qed
  note fin = run_completes_drained[OF c]
  show ?thesis
  proof (intro conjI)
    show "submitted (dropWhile ?P (trace s)) = []" by (rule after)
    show "arrived (trace s) \<noteq> [] \<longrightarrow> submitted (takeWhile ?P (trace s)) = ?ts"
      using first by blast
    show "returned s \<noteq> None \<longrightarrow>
            submitted (trace s) = ?ts \<and>
            length (arrived (trace s)) = length (submitted (trace s)) \<and>
            recvd s = totalGoroutines s \<and> returned s = Some (errors s)"
      using complete by blast
    show "length (arrived (trace s)) = recvd s" by (rule n)
    show "recvd s \<le> totalGoroutines s" by (rule le)
    show "totalGoroutines s = length (submitted (trace s))" by (rule tot)
    show "errors s = non_nil (arrived (trace s))" by (rule e)
    show "returned s \<noteq> None \<longrightarrow> errChan s = []" using empty by blast
    show "\<exists>more s'. exec env more s = Some s' \<and> returned s' = Some (errors s') \<and>
            submitted (trace s') = ?ts \<and> length (arrived (trace s')) = length ?ts \<and>
            recvd s' = length ?ts"
      by (rule fin)
  qed
qed

theorem submissions_precede_receives_witness:
  "reaches_dispatch example_env example_args () \<and>
   map_option (\<lambda>s. (returned s, recvd s, totalGoroutines s, length (arrived (trace s)),
                     length (submitted (trace s)), errChan s,
                     length (submitted (takeWhile (\<lambda>e. \<not> is_recv e) (trace s))),
                     submitted (dropWhile (\<lambda>e. \<not> is_recv e) (trace s))))
     (Document_run example_env example_provider [''acme_widget''] [''acme_image'']
        example_schedule)
     = Some (Some [], 4, 4, 4, 4, [], 4, []) \<and>
   Document_run example_env example_provider [''acme_widget''] [''acme_image'']
     [Submit, Submit, Submit, Work 1, Send 1, Recv] = None"
proof -
  have "\<exists>s. Document_run example_env example_provider [''acme_widget''] [''acme_image'']
        example_schedule = Some s \<and> returned s = Some [] \<and> errors s = [] \<and>
      arrived (trace s) = [None, None, None, None]"
    by (simp add: example_defs arrived_def)
  then obtain s where all: "Document_run example_env example_provider [''acme_widget'']
        [''acme_image''] example_schedule = Some s \<and> returned s = Some [] \<and> errors s = [] \<and>
      arrived (trace s) = [None, None, None, None]"
    by (rule exE)
  then have run: "Document_run example_env example_provider [''acme_widget'']
        [''acme_image''] example_schedule = Some s"
    and ret: "returned s = Some []"
    and arr: "arrived (trace s) = [None, None, None, None]"
    by simp_all
  note t = submissions_precede_receives[OF example_dispatch(1) run]
  from ret have rn: "returned s \<noteq> None" by simp
  from arr have an: "arrived (trace s) \<noteq> []" by simp
  from t have after: "submitted (dropWhile (\<lambda>e. \<not> is_recv e) (trace s)) = []"
    by (rule conjunct1)
  from t an have "submitted (takeWhile (\<lambda>e. \<not> is_recv e) (trace s))
      = tasks example_provider example_args () [''acme_widget''] [''acme_image'']"
    by blast
  then have before: "length (submitted (takeWhile (\<lambda>e. \<not> is_recv e) (trace s))) = 4"
    by (simp add: tasks_def rangeTasks_def example_provider_def)
  from t rn have fin: "length (arrived (trace s)) = length (submitted (trace s))"
    "recvd s = totalGoroutines s" "errChan s = []"
    by blast+
  from t have cnt: "length (arrived (trace s)) = recvd s"
    by blast
  from arr have four: "length (arrived (trace s)) = 4" by simp
  from four fin cnt have nums: "recvd s = 4" "totalGoroutines s = 4"
    "length (submitted (trace s)) = 4"
    by simp_all
  from ret nums four fin(3) before after
  have "(returned s, recvd s, totalGoroutines s, length (arrived (trace s)),
         length (submitted (trace s)), errChan s,
         length (submitted (takeWhile (\<lambda>e. \<not> is_recv e) (trace s))),
         submitted (dropWhile (\<lambda>e. \<not> is_recv e) (trace s)))
        = (Some [], 4, 4, 4, 4, [], 4, [])"
    by simp
  then have c1: "map_option (\<lambda>s. (returned s, recvd s, totalGoroutines s, length (arrived (trace s)),
                     length (submitted (trace s)), errChan s,
                     length (submitted (takeWhile (\<lambda>e. \<not> is_recv e) (trace s))),
                     submitted (dropWhile (\<lambda>e. \<not> is_recv e) (trace s))))
     (Document_run example_env example_provider [''acme_widget''] [''acme_image'']
        example_schedule)
     = Some (Some [], 4, 4, 4, 4, [], 4, [])"
    unfolding run by simp
  have early: "Document_run example_env example_provider [''acme_widget''] [''acme_image'']
     [Submit, Submit, Submit, Work 1, Send 1, Recv] = None"
    by (simp add: example_defs)
  from example_dispatch(1) c1 early show ?thesis by (intro conjI)
qed

lemma live_le_sum:
  assumes "k < length gs"
  shows "live (gs ! k) \<le> sum_list (map live gs)"
proof -
  from assms have "live (gs ! k) \<in> set (map live gs)" by simp
  then show ?thesis by (simp add: member_le_sum_list)
qed

section \<open>The completion channel\<close>

text \<open>
  Claim C2, amended. The completion channel buffers one result: its buffer never holds
  more than one value, so a worker whose result is ready while the buffer is occupied
  waits on its send. Such a wait ends with the dispatcher's next receive, which frees
  the buffer for that send. No run gets stuck or goes on for ever: a run of \<open>N\<close> tasks
  has at most \<open>4 N + 1\<close> steps, while \<^verbatim>\<open>Document\<close> has not returned some step is
  possible, every run can be continued until \<^verbatim>\<open>Document\<close> returns, and by then every
  worker has completed its send and exited.
\<close>

theorem completion_channel_holds_one:
  assumes "reaches_dispatch env a templates"
    and "Document_run env p rkeys dkeys sched = Some s"
  shows "errChan_cap = 1 \<and> length (errChan s) \<le> 1 \<and>
         length sched \<le> 4 * length (tasks p a templates rkeys dkeys) + 1 \<and>
         (returned s = None \<longrightarrow> (\<exists>b s'. step env b s = Some s')) \<and>
         (\<exists>more s'. exec env more s = Some s' \<and> returned s' \<noteq> None) \<and>
         (\<forall>k. blocked_on_send k s \<longrightarrow> returned s = None \<and> length (errChan s) = 1) \<and>
         (\<forall>k s'. blocked_on_send k s \<and> receive s = Some s' \<longrightarrow> send k s' \<noteq> None) \<and>
         (returned s \<noteq> None \<longrightarrow> list_all (\<lambda>g. g = Exited) (goroutines s))"
proof -
  let ?ts = "tasks p a templates rkeys dkeys"
  from run_consistent[OF assms] have c: "consistent env ?ts s" .
  then have cnt: "inv_count s" and cap: "length (errChan s) \<le> 1"
    by (simp_all add: consistent_def inv_cap_def errChan_cap_def)
  have quiet: "sum_list (map live (goroutines s)) = 0" if "returned s \<noteq> None"
  proof -
    from that obtain errs where "returned s = Some errs" by blast
    from returned_facts(7)[OF c this] show ?thesis .
  qed
  have exited: "list_all (\<lambda>g. g = Exited) (goroutines s)" if "returned s \<noteq> None"
  proof -
    from quiet[OF that] have z: "\<forall>g \<in> set (goroutines s). live g = 0" by simp
    have "g = Exited" if "g \<in> set (goroutines s)" for g
    proof (cases g)
      case (Rendering t)
      with z that show ?thesis by auto
    next
      case (Sending r)
      with z that show ?thesis by auto
    next
      case Exited
      then show ?thesis .
    qed
    then show ?thesis by (simp add: list_all_iff)
  qed
  have blocked: "returned s = None \<and> length (errChan s) = 1" if "blocked_on_send k s" for k
  proof -
    from that obtain r where k: "k < length (goroutines s)" and g: "goroutines s ! k = Sending r"
      and full: "\<not> length (errChan s) < errChan_cap"
      by (auto simp: blocked_on_send_def split: goroutine.splits)
    from live_le_sum[OF k] g have "0 < sum_list (map live (goroutines s))" by simp
    moreover    have "returned s = None"
    proof (rule ccontr)
      assume "returned s \<noteq> None"
      from quiet[OF this] \<open>0 < sum_list (map live (goroutines s))\<close> show False by linarith
    qed
    moreover from full have "1 \<le> length (errChan s)" unfolding errChan_cap_def by linarith
    with cap have "length (errChan s) = 1" by linarith
    ultimately show ?thesis by simp
  qed
  have unblocked: "send k s' \<noteq> None" if "blocked_on_send k s" and "receive s = Some s'" for k s'
  proof -
    from that(1) obtain r where k: "k < length (goroutines s)" and g: "goroutines s ! k = Sending r"
      by (auto simp: blocked_on_send_def split: goroutine.splits)
    from that(2) show ?thesis
    proof (rule receive_SomeD)
      fix r' rest
      assume ch: "errChan s = r' # rest"
        and s': "s' = s\<lparr>errChan := rest, recvd := recvd s + 1,
                 errors := errors s @ (case r' of None \<Rightarrow> [] | Some e \<Rightarrow> [e]),
                 trace := trace s @ [EvRecv r']\<rparr>"
      from ch cap have "rest = []" by simp
      with k g show ?thesis by (simp add: send_def s' errChan_cap_def)
    qed
  qed
  from progress[OF cnt] have prog: "returned s = None \<longrightarrow> (\<exists>b s'. step env b s = Some s')"
    by blast
  from run_completes[OF cnt] have compl: "\<exists>more s'. exec env more s = Some s' \<and> returned s' \<noteq> None" .
  have one: "errChan_cap = 1" by (simp add: errChan_cap_def)
  have bound: "length sched \<le> 4 * length ?ts + 1"
  proof -
    from assms have "exec env sched (dispatching ?ts [EvParseArgs, EvParseTemplates]) = Some s"
      by (simp add: Document_run_def Document_start_dispatching)
    from steps_left_exec[OF this] show ?thesis
      by (simp add: steps_left_def dispatching_def)
  qed
  show ?thesis
  proof (intro conjI)
    show "errChan_cap = 1" by (rule one)
    show "length (errChan s) \<le> 1" by (rule cap)
    show "length sched \<le> 4 * length ?ts + 1" by (rule bound)
    show "returned s = None \<longrightarrow> (\<exists>b s'. step env b s = Some s')" by (rule prog)
    show "\<exists>more s'. exec env more s = Some s' \<and> returned s' \<noteq> None" by (rule compl)
    show "\<forall>k. blocked_on_send k s \<longrightarrow> returned s = None \<and> length (errChan s) = 1"
      using blocked by blast
    show "\<forall>k s'. blocked_on_send k s \<and> receive s = Some s' \<longrightarrow> send k s' \<noteq> None"
      using unblocked by blast
    show "returned s \<noteq> None \<longrightarrow> list_all (\<lambda>g. g = Exited) (goroutines s)"
      using exited by blast
  qed
qed

theorem completion_channel_holds_one_witness:
  "reaches_dispatch example_env example_args () \<and>
   map_option (\<lambda>s. (blocked_on_send 1 s, errChan s, returned s))
     (Document_run example_env example_provider [''acme_widget''] [''acme_image'']
        blocking_schedule)
     = Some (True, [None], None)"
proof -
  have "\<exists>s. Document_run example_env example_provider [''acme_widget''] [''acme_image'']
        blocking_schedule = Some s \<and> blocked_on_send 1 s \<and> errChan s = [None]"
    by (simp add: example_defs blocking_schedule_def blocked_on_send_def)
  then obtain s where run: "Document_run example_env example_provider [''acme_widget'']
        [''acme_image''] blocking_schedule = Some s"
    and b: "blocked_on_send 1 s" and ch: "errChan s = [None]"
    by blast
  from completion_channel_holds_one[OF example_dispatch(1) run] b
  have "returned s = None" by blast
  with b ch have "(blocked_on_send 1 s, errChan s, returned s) = (True, [None], None)"
    by simp
  then have "map_option (\<lambda>s. (blocked_on_send 1 s, errChan s, returned s))
     (Document_run example_env example_provider [''acme_widget''] [''acme_image'']
        blocking_schedule)
     = Some (True, [None], None)"
    unfolding run by simp
  with example_dispatch(1) show ?thesis by blast
qed

text \<open>
  Claim C2 as stated fails: after both workers of the example have rendered and the
  first has sent, the second waits on its send.
\<close>

theorem worker_blocks_on_send_counterexample:
  "map_option (blocked_on_send 1)
     (Document_run example_env example_provider [''acme_widget''] [''acme_image'']
        blocking_schedule)
     = Some True"
  by (simp add: example_defs blocking_schedule_def blocked_on_send_def)

section \<open>Properties of the paths\<close>

lemma splitSep_not_Nil: "splitSep xs \<noteq> []"
  by (induction xs) (auto split: list.splits)

lemma splitSep_sepfree: "Separator \<notin> set e \<Longrightarrow> splitSep e = [e]"
  by (induction e) auto

lemma splitSep_append: "splitSep (xs @ Separator # ys) = splitSep xs @ splitSep ys"
proof (induction xs)
  case Nil
  show ?case by simp
next
  case (Cons c cs)
  obtain e es where "splitSep cs = e # es"
    using splitSep_not_Nil[of cs] by (cases "splitSep cs") auto
  with Cons show ?case by simp
qed

lemma splitSep_elems: "e \<in> set (splitSep xs) \<Longrightarrow> Separator \<notin> set e"
proof (induction xs arbitrary: e)
  case Nil
  then show ?case by simp
next
  case (Cons c cs)
  obtain x xs where sp: "splitSep cs = x # xs"
    using splitSep_not_Nil[of cs] by (cases "splitSep cs") auto
  show ?case
  proof (cases "c = Separator")
    case True
    with Cons show ?thesis by auto
  next
    case False
    with Cons.prems sp have "e = c # x \<or> e \<in> set xs" by simp
    with Cons.IH sp False show ?thesis by auto
  qed
qed

lemma splitSep_joinSep:
  assumes "es \<noteq> []" and "\<forall>e \<in> set es. Separator \<notin> set e"
  shows "splitSep (joinSep es) = es"
  using assms
proof (induction es rule: joinSep.induct)
  case 1
  then show ?case by simp
next
  case (2 e)
  then show ?case by (simp add: splitSep_sepfree)
next
  case (3 e v va)
  then show ?case by (simp add: splitSep_append splitSep_sepfree)
qed

lemma cleanElem_plain: "plain e \<Longrightarrow> cleanElem rooted out e = out @ [e]"
  by (simp add: cleanElem_def plain_def)

lemma cleanElem_sepfree:
  assumes "\<forall>x \<in> set out. Separator \<notin> set x" and "Separator \<notin> set e"
  shows "\<forall>x \<in> set (cleanElem rooted out e). Separator \<notin> set x"
proof -
  have "set (butlast out) \<subseteq> set out" by (auto dest: in_set_butlastD)
  with assms show ?thesis by (auto simp: cleanElem_def Separator_def)
qed

lemma foldl_cleanElem_sepfree:
  assumes "\<forall>x \<in> set out. Separator \<notin> set x" and "\<forall>e \<in> set es. Separator \<notin> set e"
  shows "\<forall>x \<in> set (foldl (cleanElem rooted) out es). Separator \<notin> set x"
  using assms
proof (induction es arbitrary: out)
  case Nil
  then show ?case by simp
next
  case (Cons e es)
  from Cons.prems have "\<forall>x \<in> set (cleanElem rooted out e). Separator \<notin> set x"
    by (intro cleanElem_sepfree) simp_all
  with Cons.IH[of "cleanElem rooted out e"] Cons.prems(2) show ?case by simp
qed

lemma cleanElems_sepfree: "\<forall>x \<in> set (cleanElems path). Separator \<notin> set x"
  unfolding cleanElems_def
  by (rule foldl_cleanElem_sepfree) (simp_all add: splitSep_elems)

lemma isRooted_append: "d \<noteq> [] \<Longrightarrow> isRooted (d @ xs) = isRooted d"
  by (cases d) (simp_all add: isRooted_def)

lemma plain_not_rooted: "plain e \<Longrightarrow> \<not> isRooted e"
  by (cases e) (auto simp: plain_def isRooted_def)

lemma isRooted_Nil: "\<not> isRooted []"
  by (simp add: isRooted_def)

lemma cleanElems_Nil: "cleanElems [] = []"
  by (simp add: cleanElems_def cleanElem_def isRooted_Nil)

lemma cleanElems_snoc:
  assumes "plain b" and "d \<noteq> []"
  shows "cleanElems (d @ Separator # b) = cleanElems d @ [b]"
proof -
  from assms(1) have "splitSep b = [b]" by (simp add: splitSep_sepfree plain_def)
  with assms show ?thesis
    by (simp add: cleanElems_def splitSep_append isRooted_append cleanElem_plain)
qed

lemma cleanElems_plain: "plain b \<Longrightarrow> cleanElems b = [b]"
  by (simp add: cleanElems_def splitSep_sepfree cleanElem_plain plain_def)

lemma Clean_snoc:
  assumes "plain b" and "d \<noteq> []"
  shows "Clean (d @ Separator # b) = rootPrefix d @ joinSep (cleanElems d @ [b])"
  using assms by (simp add: Clean_def Let_def cleanElems_snoc isRooted_append rootPrefix_def)

lemma Join2:
  assumes "plain b"
  shows "Join [d, b] = rootPrefix d @ joinSep (cleanElems d @ [b])"
proof (cases "d = []")
  case True
  from assms have "b \<noteq> []" by (simp add: plain_def)
  with True assms show ?thesis
    by (simp add: Join_def Clean_def Let_def cleanElems_plain cleanElems_Nil plain_not_rooted
        rootPrefix_def isRooted_Nil)
next
  case False
  with Clean_snoc[OF assms False] show ?thesis by (simp add: Join_def)
qed

lemma Join3:
  assumes "plain b" and "plain c"
  shows "Join [d, b, c] = rootPrefix d @ joinSep (cleanElems d @ [b, c])"
proof (cases "d = []")
  case True
  from assms have ne: "b \<noteq> []" by (simp add: plain_def)
  from Clean_snoc[OF assms(2) ne] assms(1)
  have "Clean (b @ Separator # c) = joinSep [b, c]"
    by (simp add: cleanElems_plain rootPrefix_def plain_not_rooted)
  with True ne show ?thesis
    by (simp add: Join_def cleanElems_Nil rootPrefix_def isRooted_Nil)
next
  case False
  have "d @ Separator # b \<noteq> []" by simp
  from Clean_snoc[OF assms(2) this] Clean_snoc[OF assms(1) False] cleanElems_snoc[OF assms(1) False]
  have "Clean ((d @ Separator # b) @ Separator # c) = rootPrefix d @ joinSep (cleanElems d @ [b, c])"
    by (simp add: rootPrefix_def isRooted_append False)
  with False show ?thesis by (simp add: Join_def)
qed

lemma plain_md: "Separator \<notin> set n \<Longrightarrow> plain (n @ ''.md'')"
proof -
  assume "Separator \<notin> set n"
  moreover have "length (n @ ''.md'') \<ge> 3" by simp
  then have "n @ ''.md'' \<noteq> []" and "n @ ''.md'' \<noteq> ''.''" and "n @ ''.md'' \<noteq> ''..''"
    by (auto simp del: length_append dest!: arg_cong[where f = length])
  ultimately show ?thesis by (simp add: plain_def Separator_def)
qed

lemma plain_literals:
  "plain ''index.md''" "plain ''resources''" "plain ''data-sources''" "plain ''mkdocs.yml''"
  by (simp_all add: plain_def Separator_def)

lemma docsPath_inj:
  assumes "t1 \<noteq> []" and "t2 \<noteq> []"
    and "\<forall>e \<in> set t1. Separator \<notin> set e" and "\<forall>e \<in> set t2. Separator \<notin> set e"
    and "docsPath d t1 = docsPath d t2"
  shows "t1 = t2"
proof -
  from assms(5) have "joinSep (cleanElems d @ t1) = joinSep (cleanElems d @ t2)"
    by (simp add: docsPath_def)
  then have "splitSep (joinSep (cleanElems d @ t1)) = splitSep (joinSep (cleanElems d @ t2))"
    by simp
  moreover from assms(1,3) cleanElems_sepfree[of d]
  have "splitSep (joinSep (cleanElems d @ t1)) = cleanElems d @ t1"
    by (intro splitSep_joinSep) auto
  moreover from assms(2,4) cleanElems_sepfree[of d]
  have "splitSep (joinSep (cleanElems d @ t2)) = cleanElems d @ t2"
    by (intro splitSep_joinSep) auto
  ultimately show ?thesis by simp
qed

lemma docsPath_not_config:
  assumes "t \<noteq> []" and "\<forall>e \<in> set t. Separator \<notin> set e" and "last t \<noteq> ''mkdocs.yml''"
  shows "docsPath d t \<noteq> ''mkdocs.yml''"
proof (cases "isRooted d")
  case True
  then show ?thesis by (simp add: docsPath_def rootPrefix_def Separator_def)
next
  case False
  show ?thesis
  proof
    assume "docsPath d t = ''mkdocs.yml''"
    with False have "joinSep (cleanElems d @ t) = ''mkdocs.yml''"
      by (simp add: docsPath_def rootPrefix_def)
    then have "splitSep (joinSep (cleanElems d @ t)) = splitSep ''mkdocs.yml''" by simp
    moreover from assms(1,2) cleanElems_sepfree[of d]
    have "splitSep (joinSep (cleanElems d @ t)) = cleanElems d @ t"
      by (intro splitSep_joinSep) auto
    moreover have "splitSep ''mkdocs.yml'' = [''mkdocs.yml'']"
      by (rule splitSep_sepfree) (simp add: Separator_def)
    ultimately have "cleanElems d @ t = [''mkdocs.yml'']" by simp
    then have "last (cleanElems d @ t) = ''mkdocs.yml''" by simp
    with assms(1,3) show False by simp
  qed
qed

lemma Join_config: "Join [''mkdocs.yml''] = ''mkdocs.yml''"
proof -
  have "Clean ''mkdocs.yml'' = ''mkdocs.yml''"
    using cleanElems_plain[OF plain_literals(4)] plain_not_rooted[OF plain_literals(4)]
    by (simp add: Clean_def)
  then show ?thesis by (simp add: Join_def)
qed

lemma rangeTasks_map:
  assumes "set ks \<subseteq> dom m"
  shows "map f (rangeTasks mk m ks) = map (\<lambda>k. f (mk k (the (m k)))) ks"
  using assms by (induction ks) (auto simp: rangeTasks_def)

lemma tasks_map:
  assumes "range_order (ResourcesMap p) rkeys" and "range_order (DataSourcesMap p) dkeys"
  shows "map f (tasks p a templates rkeys dkeys) =
     f (mkdocsYmlTask p a templates) # f (providerTask p a templates)
     # map (\<lambda>n. f (resourceTask a templates n (the (ResourcesMap p n)))) rkeys
     @ map (\<lambda>n. f (dataSourceTask a templates n (the (DataSourcesMap p n)))) dkeys"
  using assms by (simp add: tasks_def rangeTasks_map range_order_def)

lemma tasks_outFiles:
  assumes "range_order (ResourcesMap p) rkeys" and "range_order (DataSourcesMap p) dkeys"
  shows "map task_outFile (tasks p a templates rkeys dkeys) =
     ''mkdocs.yml'' # Join [docsDir a, ''index.md'']
     # map (\<lambda>n. Join [docsDir a, ''resources'', n @ ''.md'']) rkeys
     @ map (\<lambda>n. Join [docsDir a, ''data-sources'', n @ ''.md'']) dkeys"
  by (simp add: tasks_map[OF assms] mkdocsYmlTask_def providerTask_def resourceTask_def
      dataSourceTask_def Join_config)

lemma md_not_config: "n @ ''.md'' \<noteq> ''mkdocs.yml''"
proof
  assume "n @ ''.md'' = ''mkdocs.yml''"
  then have "last (n @ ''.md'') = last ''mkdocs.yml''" by simp
  then show False by simp
qed

lemma tasks_outFiles_distinct:
  assumes "range_order (ResourcesMap p) rkeys" and "range_order (DataSourcesMap p) dkeys"
    and "\<forall>n \<in> set rkeys \<union> set dkeys. Separator \<notin> set n"
  shows "distinct (map task_outFile (tasks p a templates rkeys dkeys))"
proof -
  let ?d = "docsDir a"
  let ?tails = "[''index.md''] # map (\<lambda>n. [''resources'', n @ ''.md'']) rkeys
      @ map (\<lambda>n. [''data-sources'', n @ ''.md'']) dkeys"
  from assms(1,2) have dk: "distinct rkeys" "distinct dkeys" by (simp_all add: range_order_def)
  have files: "map task_outFile (tasks p a templates rkeys dkeys)
      = ''mkdocs.yml'' # map (docsPath ?d) ?tails"
    using assms(3)
    by (simp add: tasks_outFiles[OF assms(1,2)] docsPath_def Join2 Join3 plain_literals plain_md)
  have dt: "distinct ?tails"
    using dk by (auto simp: distinct_map inj_on_def)
  have shape: "t \<noteq> [] \<and> (\<forall>e \<in> set t. Separator \<notin> set e) \<and> last t \<noteq> ''mkdocs.yml''"
    if "t \<in> set ?tails" for t
    using that assms(3) plain_md plain_literals md_not_config
    by (auto simp: plain_def)
  have inj: "inj_on (docsPath ?d) (set ?tails)"
  proof (rule inj_onI)
    fix t1 t2
    assume "t1 \<in> set ?tails" and "t2 \<in> set ?tails" and "docsPath ?d t1 = docsPath ?d t2"
    with shape[of t1] shape[of t2] show "t1 = t2" by (intro docsPath_inj[of t1 t2 ?d]) simp_all
  qed
  have "''mkdocs.yml'' \<notin> set (map (docsPath ?d) ?tails)"
  proof
    assume "''mkdocs.yml'' \<in> set (map (docsPath ?d) ?tails)"
    then have "''mkdocs.yml'' \<in> docsPath ?d ` set ?tails" by (simp only: set_map)
    then obtain t where t: "t \<in> set ?tails" and eq: "''mkdocs.yml'' = docsPath ?d t"
      by (rule imageE)
    from shape[OF t] have "docsPath ?d t \<noteq> ''mkdocs.yml''"
      by (intro docsPath_not_config) simp_all
    with eq show False by simp
  qed
  moreover from dt inj have "distinct (map (docsPath ?d) ?tails)"
    by (simp only: distinct_map)
  ultimately show ?thesis unfolding files by simp
qed

lemmas path_defs =
  Join_def Clean_def cleanElems_def cleanElem_def isRooted_def Separator_def

lemma files_written_rendered:
  "files_written evs = map (task_outFile \<circ> fst) (filter (\<lambda>x. snd x = None) (rendered evs))"
  by (induction evs) (auto simp: files_written_def rendered_def split: event.splits option.splits)

lemma successful_files:
  assumes "consistent env ts s" and "returned s = Some []"
  shows "mset (files_written (trace s)) = mset (map task_outFile ts)"
proof -
  note f = returned_facts[OF assms]
  from assms(1) have e: "errors s = non_nil (arrived (trace s))"
    and r: "rendered (trace s) = map (\<lambda>t. (t, render env t)) (map fst (rendered (trace s)))"
    by (simp_all add: consistent_def inv_errors_def inv_rendered_def)
  from f(1) e have "non_nil (arrived (trace s)) = []" by simp
  then have "\<forall>x \<in> set (arrived (trace s)). x = None"
    by (simp only: non_nil_empty)
  moreover from f(8) have "set (arrived (trace s)) = set (map (render env) ts)"
    by (rule mset_eq_setD)
  ultimately have ok: "\<forall>t \<in> set ts. render env t = None" by simp
  from f(9) have "set (map fst (rendered (trace s))) = set ts" by (rule mset_eq_setD)
  with ok have "\<forall>t \<in> set (map fst (rendered (trace s))). render env t = None" by simp
  then have "\<forall>x \<in> set (map (\<lambda>t. (t, render env t)) (map fst (rendered (trace s)))). snd x = None"
    by simp
  with r have "\<forall>x \<in> set (rendered (trace s)). snd x = None" by simp
  then have "filter (\<lambda>x. snd x = None) (rendered (trace s)) = rendered (trace s)"
    by (simp only: filter_True)
  then have "files_written (trace s) = map task_outFile (map fst (rendered (trace s)))"
    by (simp add: files_written_rendered)
  then have "mset (files_written (trace s)) = image_mset task_outFile (mset (map fst (rendered (trace s))))"
    by (simp only: mset_map)
  with f(9) show ?thesis by simp
qed

section \<open>The tasks of a run and their files\<close>

text \<open>
  A run that gets past argument parsing, the help flag and template loading submits
  exactly \<open>2 + R + D\<close> tasks, where \<open>R\<close> and \<open>D\<close> are the numbers of entries of the
  resources map and of the data-sources map. When it returns the empty error list, the
  files written are the output paths of the submitted tasks, one write for each task;
  they are \<open>2 + R + D\<close> different files when no resource or data-source name holds a path
  separator.
\<close>

lemma tasks_and_writes:
  assumes "reaches_dispatch env a templates"
    and "range_order (ResourcesMap p) rkeys" and "range_order (DataSourcesMap p) dkeys"
    and "Document_run env p rkeys dkeys sched = Some s"
    and "returned s = Some errs"
  shows "totalGoroutines s = 2 + card (dom (ResourcesMap p)) + card (dom (DataSourcesMap p)) \<and>
         length (submitted (trace s))
           = 2 + card (dom (ResourcesMap p)) + card (dom (DataSourcesMap p)) \<and>
         (errs = [] \<longrightarrow>
            mset (files_written (trace s)) = mset (map task_outFile (submitted (trace s))) \<and>
            length (files_written (trace s))
              = 2 + card (dom (ResourcesMap p)) + card (dom (DataSourcesMap p))) \<and>
         (errs = [] \<and>
          (\<forall>n \<in> dom (ResourcesMap p) \<union> dom (DataSourcesMap p). Separator \<notin> set n) \<longrightarrow>
            count_files (trace s)
              = 2 + card (dom (ResourcesMap p)) + card (dom (DataSourcesMap p)))"
proof -
  let ?ts = "tasks p a templates rkeys dkeys"
  let ?n = "2 + card (dom (ResourcesMap p)) + card (dom (DataSourcesMap p))"
  from run_consistent[OF assms(1,4)] have c: "consistent env ?ts s" .
  note f = returned_facts[OF c assms(5)]
  note len = tasks_length[OF assms(2,3), of a templates]
  from f(3,4) len have n: "totalGoroutines s = ?n" "length (submitted (trace s)) = ?n"
    by simp_all
  have each: "mset (files_written (trace s)) = mset (map task_outFile (submitted (trace s)))"
    if "errs = []"
  proof -
    from that assms(5) have "returned s = Some []" by simp
    from successful_files[OF c this] show ?thesis unfolding f(3) .
  qed
  have written: "length (files_written (trace s)) = ?n" if "errs = []"
  proof -
    from that assms(5) have "returned s = Some []" by simp
    from successful_files[OF c this]
    have "size (mset (files_written (trace s))) = size (mset (map task_outFile ?ts))" by simp
    with len show ?thesis by simp
  qed
  have files: "count_files (trace s) = ?n"
    if "errs = []" and "\<forall>n \<in> dom (ResourcesMap p) \<union> dom (DataSourcesMap p). Separator \<notin> set n"
  proof -
    from that(1) assms(5) have "returned s = Some []" by simp
    from successful_files[OF c this]
    have m: "mset (files_written (trace s)) = mset (map task_outFile ?ts)" .
    from that(2) assms(2,3) have "\<forall>n \<in> set rkeys \<union> set dkeys. Separator \<notin> set n"
      by (simp add: range_order_def)
    from tasks_outFiles_distinct[OF assms(2,3) this, of a templates]
    have "distinct (map task_outFile ?ts)" .
    with mset_eq_imp_distinct_iff[OF m] have "distinct (files_written (trace s))"
      by blast
    then have "count_files (trace s) = length (files_written (trace s))"
      by (simp add: count_files_def distinct_remdups_id)
    with written[OF that(1)] show ?thesis by simp
  qed
  from n each written files show ?thesis by blast
qed

lemma successful_run:
  "\<exists>s. Document_run example_env example_provider [''acme_widget''] [''acme_image'']
          example_schedule = Some s \<and> returned s = Some []"
  by (simp add: example_defs)

lemma example_names:
  "\<forall>n \<in> dom (ResourcesMap example_provider) \<union> dom (DataSourcesMap example_provider).
     Separator \<notin> set n"
  by (simp add: example_provider_def Separator_def)

lemma tasks_and_writes_example:
  "reaches_dispatch example_env example_args () \<and>
   range_order (ResourcesMap example_provider) [''acme_widget''] \<and>
   range_order (DataSourcesMap example_provider) [''acme_image''] \<and>
   Document example_env example_provider [''acme_widget''] [''acme_image''] example_schedule
     = Some [] \<and>
   map_option (\<lambda>s. (totalGoroutines s, count_files (trace s)))
     (Document_run example_env example_provider [''acme_widget''] [''acme_image'']
        example_schedule)
     = Some (4, 4)"
proof -
  from successful_run obtain s
    where all: "Document_run example_env example_provider [''acme_widget''] [''acme_image'']
          example_schedule = Some s \<and> returned s = Some []"
    by (rule exE)
  then have run: "Document_run example_env example_provider [''acme_widget''] [''acme_image'']
          example_schedule = Some s"
    and ret: "returned s = Some []"
    by simp_all
  have four: "2 + card (dom (ResourcesMap example_provider))
      + card (dom (DataSourcesMap example_provider)) = 4"
    by (simp add: example_provider_def)
  from tasks_and_writes[OF example_dispatch(1) example_orders run ret] example_names
  have "totalGoroutines s = 2 + card (dom (ResourcesMap example_provider))
      + card (dom (DataSourcesMap example_provider))"
    and "count_files (trace s) = 2 + card (dom (ResourcesMap example_provider))
      + card (dom (DataSourcesMap example_provider))"
    by simp_all
  with four have "(totalGoroutines s, count_files (trace s)) = (4, 4)" by simp
  then have "map_option (\<lambda>s. (totalGoroutines s, count_files (trace s)))
     (Document_run example_env example_provider [''acme_widget''] [''acme_image'']
        example_schedule) = Some (4, 4)"
    unfolding run by simp
  moreover from run ret
  have "Document example_env example_provider [''acme_widget''] [''acme_image''] example_schedule
     = Some []"
    by (simp add: Document_def)
  ultimately show ?thesis using example_dispatch(1) example_orders by simp
qed

text \<open>
  Claim C1. The claim gives a fully successful run \<open>2 + R + D\<close> output files, and the
  package comment (lines 37 to 44) one md file for each resource, named after its name
  in the map. The code does otherwise for the resource names \<^verbatim>\<open>acme_widget\<close> and
  \<^verbatim>\<open>/acme_widget\<close>: they are two entries of the map, four tasks are submitted and all
  succeed, but \<^verbatim>\<open>filepath.Join\<close> gives both resource tasks the path
  \<^verbatim>\<open>docs/resources/acme_widget.md\<close>, and the run leaves three files, not four.
\<close>

theorem colliding_names_share_a_file:
  "range_order (ResourcesMap colliding_provider) [''acme_widget'', ''/acme_widget''] \<and>
   range_order (DataSourcesMap colliding_provider) [] \<and>
   2 + card (dom (ResourcesMap colliding_provider)) + card (dom (DataSourcesMap colliding_provider))
     = 4 \<and>
   Document example_env colliding_provider [''acme_widget'', ''/acme_widget''] [] example_schedule
     = Some [] \<and>
   map_option (\<lambda>s. map task_outFile (submitted (trace s)))
     (Document_run example_env colliding_provider [''acme_widget'', ''/acme_widget''] []
        example_schedule)
     = Some [''mkdocs.yml'', ''docs/index.md'', ''docs/resources/acme_widget.md'',
             ''docs/resources/acme_widget.md''] \<and>
   map_option (\<lambda>s. files_written (trace s))
     (Document_run example_env colliding_provider [''acme_widget'', ''/acme_widget''] []
        example_schedule)
     = Some [''docs/index.md'', ''mkdocs.yml'', ''docs/resources/acme_widget.md'',
             ''docs/resources/acme_widget.md''] \<and>
   map_option (\<lambda>s. count_files (trace s))
     (Document_run example_env colliding_provider [''acme_widget'', ''/acme_widget''] []
        example_schedule)
     = Some 3"
proof -
  have orders: "range_order (ResourcesMap colliding_provider) [''acme_widget'', ''/acme_widget'']"
    "range_order (DataSourcesMap colliding_provider) []"
    by (auto simp: range_order_def colliding_provider_def)
  have four: "2 + card (dom (ResourcesMap colliding_provider))
      + card (dom (DataSourcesMap colliding_provider)) = 4"
    by (simp add: colliding_provider_def)
  have run: "Document example_env colliding_provider [''acme_widget'', ''/acme_widget''] []
       example_schedule = Some [] \<and>
     map_option (\<lambda>s. map task_outFile (submitted (trace s)))
       (Document_run example_env colliding_provider [''acme_widget'', ''/acme_widget''] []
          example_schedule)
       = Some [''mkdocs.yml'', ''docs/index.md'', ''docs/resources/acme_widget.md'',
               ''docs/resources/acme_widget.md''] \<and>
     map_option (\<lambda>s. files_written (trace s))
       (Document_run example_env colliding_provider [''acme_widget'', ''/acme_widget''] []
          example_schedule)
       = Some [''docs/index.md'', ''mkdocs.yml'', ''docs/resources/acme_widget.md'',
               ''docs/resources/acme_widget.md''] \<and>
     map_option (\<lambda>s. count_files (trace s))
       (Document_run example_env colliding_provider [''acme_widget'', ''/acme_widget''] []
          example_schedule)
       = Some 3"
    by (simp add: example_defs colliding_provider_def count_files_def files_written_def
        submitted_def path_defs)
  from orders four run show ?thesis by (intro conjI) simp_all
qed

lemma Join_plain2:
  assumes "plain d" and "plain b"
  shows "Join [d, b] = d @ Separator # b"
  using assms
  by (simp add: Join2 cleanElems_plain rootPrefix_def plain_not_rooted)

lemma Join_plain3:
  assumes "plain d" and "plain b" and "plain c"
  shows "Join [d, b, c] = d @ Separator # b @ Separator # c"
  using assms
  by (simp add: Join3 cleanElems_plain rootPrefix_def plain_not_rooted)

lemma joinSep_append:
  "xs \<noteq> [] \<Longrightarrow> ys \<noteq> [] \<Longrightarrow> joinSep (xs @ ys) = joinSep xs @ Separator # joinSep ys"
proof (induction xs rule: joinSep.induct)
  case 1
  then show ?case by simp
next
  case (2 e)
  then show ?case by (cases ys) simp_all
next
  case (3 e v va)
  then show ?case by simp
qed

lemma foldl_cleanElem_plain:
  "\<forall>e \<in> set t. plain e \<Longrightarrow> foldl (cleanElem rooted) out t = out @ t"
  by (induction t arbitrary: out) (simp_all add: cleanElem_plain)

lemma cleanDir_nonempty: "cleanDir r \<Longrightarrow> r \<noteq> []"
  by (auto simp: cleanDir_def cleanElems_Nil)

lemma Join_under:
  assumes "r \<noteq> []" and "t \<noteq> []" and "\<forall>e \<in> set t. plain e"
  shows "Join [r, joinSep t] = docsPath r t"
proof -
  from assms(3) have free: "\<forall>e \<in> set t. Separator \<notin> set e" by (simp add: plain_def)
  from assms(2) free have "splitSep (joinSep t) = t" by (rule splitSep_joinSep)
  then have "cleanElems (r @ Separator # joinSep t) = cleanElems r @ t"
    using assms(1,3)
    by (simp add: cleanElems_def splitSep_append isRooted_append foldl_cleanElem_plain)
  then have "Clean (r @ Separator # joinSep t) = docsPath r t"
    using assms(1,2) by (simp add: Clean_def Let_def isRooted_append docsPath_def rootPrefix_def)
  with assms(1) show ?thesis by (simp add: Join_def)
qed

lemma docsPath_cleanDir:
  assumes "cleanDir r" and "t \<noteq> []"
  shows "docsPath r t = r @ Separator # joinSep t"
proof -
  from assms have "joinSep (cleanElems r @ t) = joinSep (cleanElems r) @ Separator # joinSep t"
    by (intro joinSep_append) (simp_all add: cleanDir_def)
  then have "docsPath r t = (rootPrefix r @ joinSep (cleanElems r)) @ Separator # joinSep t"
    by (simp add: docsPath_def)
  with assms(1) show ?thesis by (simp add: cleanDir_def)
qed

lemma Join_cleanDir:
  assumes "cleanDir r" and "t \<noteq> []" and "\<forall>e \<in> set t. plain e"
  shows "Join [r, joinSep t] = r @ Separator # joinSep t"
  using Join_under[OF cleanDir_nonempty[OF assms(1)] assms(2,3)] docsPath_cleanDir[OF assms(1,2)]
  by simp

lemma tasks_outputFiles:
  assumes "range_order (ResourcesMap p) rkeys" and "range_order (DataSourcesMap p) dkeys"
  shows "map (\<lambda>t. (task_role t, outputFile a t)) (tasks p a templates rkeys dkeys) =
           (ConfigFile, Join [rootDir a, ''mkdocs.yml''])
           # (IndexDoc, Join [rootDir a, Join [docsDir a, ''index.md'']])
           # map (\<lambda>n. (ResourceDoc, Join [rootDir a, Join [docsDir a, ''resources'', n @ ''.md'']]))
               rkeys
           @ map (\<lambda>n. (DataSourceDoc,
                        Join [rootDir a, Join [docsDir a, ''data-sources'', n @ ''.md'']])) dkeys"
  by (simp add: tasks_map[OF assms] outputFile_def mkdocsYmlTask_def providerTask_def
      resourceTask_def dataSourceTask_def Join_config)

lemma under_root_config:
  assumes "cleanDir r"
  shows "Join [r, ''mkdocs.yml''] = r @ ''/mkdocs.yml''"
  using Join_cleanDir[OF assms, of "[''mkdocs.yml'']"] plain_literals(4)
  by (simp add: Separator_def)

lemma under_root_index:
  assumes "cleanDir r" and "plain d"
  shows "Join [r, Join [d, ''index.md'']] = r @ ''/'' @ d @ ''/index.md''"
  using Join_cleanDir[OF assms(1), of "[d, ''index.md'']"] assms(2) plain_literals(1)
  by (simp add: Join_plain2 Separator_def)

lemma under_root_entity:
  assumes "cleanDir r" and "plain d" and "plain k" and "Separator \<notin> set n"
  shows "Join [r, Join [d, k, n @ ''.md'']] = r @ ''/'' @ d @ ''/'' @ k @ ''/'' @ n @ ''.md''"
  using Join_cleanDir[OF assms(1), of "[d, k, n @ ''.md'']"] assms(2,3) plain_md[OF assms(4)]
  by (simp add: Join_plain3 Separator_def)

lemma example_cleanDir: "cleanDir (rootDir example_args)"
  by (simp add: cleanDir_def example_args_def rootPrefix_def path_defs)

text \<open>
  Claim C6. For every run, \<^verbatim>\<open>Document\<close> gives the config task the path \<^verbatim>\<open>mkdocs.yml\<close>
  and the other tasks the \<^verbatim>\<open>filepath.Join\<close> of the docs directory with \<^verbatim>\<open>index.md\<close>, with
  \<^verbatim>\<open>resources\<close> and \<^verbatim>\<open><name>.md\<close>, and with \<^verbatim>\<open>data-sources\<close> and \<^verbatim>\<open><name>.md\<close>. Taken
  from the root directory these are the output paths of the tasks: for a clean root
  directory, a docs directory that is a plain name and a name without a separator they
  read \<^verbatim>\<open><rootDir>/mkdocs.yml\<close>, \<^verbatim>\<open><rootDir>/<docsDir>/index.md\<close>,
  \<^verbatim>\<open><rootDir>/<docsDir>/resources/<name>.md\<close> and
  \<^verbatim>\<open><rootDir>/<docsDir>/data-sources/<name>.md\<close>.
\<close>

theorem output_paths_under_root:
  assumes "reaches_dispatch env a templates"
    and "range_order (ResourcesMap p) rkeys" and "range_order (DataSourcesMap p) dkeys"
    and "Document_run env p rkeys dkeys sched = Some s"
    and "returned s = Some errs"
  shows "map (\<lambda>t. (task_role t, task_outFile t)) (submitted (trace s)) =
           (ConfigFile, ''mkdocs.yml'')
           # (IndexDoc, Join [docsDir a, ''index.md''])
           # map (\<lambda>n. (ResourceDoc, Join [docsDir a, ''resources'', n @ ''.md''])) rkeys
           @ map (\<lambda>n. (DataSourceDoc, Join [docsDir a, ''data-sources'', n @ ''.md''])) dkeys \<and>
         map (\<lambda>t. (task_role t, outputFile a t)) (submitted (trace s)) =
           (ConfigFile, Join [rootDir a, ''mkdocs.yml''])
           # (IndexDoc, Join [rootDir a, Join [docsDir a, ''index.md'']])
           # map (\<lambda>n. (ResourceDoc,
                        Join [rootDir a, Join [docsDir a, ''resources'', n @ ''.md'']])) rkeys
           @ map (\<lambda>n. (DataSourceDoc,
                        Join [rootDir a, Join [docsDir a, ''data-sources'', n @ ''.md'']])) dkeys \<and>
         (cleanDir (rootDir a) \<longrightarrow>
            Join [rootDir a, ''mkdocs.yml''] = rootDir a @ ''/mkdocs.yml'') \<and>
         (cleanDir (rootDir a) \<and> plain (docsDir a) \<longrightarrow>
            Join [rootDir a, Join [docsDir a, ''index.md'']]
              = rootDir a @ ''/'' @ docsDir a @ ''/index.md'' \<and>
            (\<forall>n. Separator \<notin> set n \<longrightarrow>
               Join [rootDir a, Join [docsDir a, ''resources'', n @ ''.md'']]
                 = rootDir a @ ''/'' @ docsDir a @ ''/resources/'' @ n @ ''.md'' \<and>
               Join [rootDir a, Join [docsDir a, ''data-sources'', n @ ''.md'']]
                 = rootDir a @ ''/'' @ docsDir a @ ''/data-sources/'' @ n @ ''.md''))"
proof -
  let ?ts = "tasks p a templates rkeys dkeys"
  from run_consistent[OF assms(1,4)] have c: "consistent env ?ts s" .
  from returned_facts(3)[OF c assms(5)] have sub: "submitted (trace s) = ?ts" .
  have rel: "map (\<lambda>t. (task_role t, task_outFile t)) ?ts =
           (ConfigFile, ''mkdocs.yml'')
           # (IndexDoc, Join [docsDir a, ''index.md''])
           # map (\<lambda>n. (ResourceDoc, Join [docsDir a, ''resources'', n @ ''.md''])) rkeys
           @ map (\<lambda>n. (DataSourceDoc, Join [docsDir a, ''data-sources'', n @ ''.md''])) dkeys"
    by (simp add: tasks_map[OF assms(2,3)] mkdocsYmlTask_def providerTask_def resourceTask_def
        dataSourceTask_def Join_config)
  note abs = tasks_outputFiles[OF assms(2,3), of a templates]
  have cfg: "Join [rootDir a, ''mkdocs.yml''] = rootDir a @ ''/mkdocs.yml''"
    if "cleanDir (rootDir a)"
    using that by (rule under_root_config)
  have docs: "Join [rootDir a, Join [docsDir a, ''index.md'']]
              = rootDir a @ ''/'' @ docsDir a @ ''/index.md'' \<and>
            (\<forall>n. Separator \<notin> set n \<longrightarrow>
               Join [rootDir a, Join [docsDir a, ''resources'', n @ ''.md'']]
                 = rootDir a @ ''/'' @ docsDir a @ ''/resources/'' @ n @ ''.md'' \<and>
               Join [rootDir a, Join [docsDir a, ''data-sources'', n @ ''.md'']]
                 = rootDir a @ ''/'' @ docsDir a @ ''/data-sources/'' @ n @ ''.md'')"
    if "cleanDir (rootDir a)" and "plain (docsDir a)"
    using under_root_index[OF that]
      under_root_entity[OF that plain_literals(2)] under_root_entity[OF that plain_literals(3)]
    by simp
  show ?thesis
  proof (intro conjI)
    show "map (\<lambda>t. (task_role t, task_outFile t)) (submitted (trace s)) =
           (ConfigFile, ''mkdocs.yml'')
           # (IndexDoc, Join [docsDir a, ''index.md''])
           # map (\<lambda>n. (ResourceDoc, Join [docsDir a, ''resources'', n @ ''.md''])) rkeys
           @ map (\<lambda>n. (DataSourceDoc, Join [docsDir a, ''data-sources'', n @ ''.md''])) dkeys"
      unfolding sub by (rule rel)
    show "map (\<lambda>t. (task_role t, outputFile a t)) (submitted (trace s)) =
           (ConfigFile, Join [rootDir a, ''mkdocs.yml''])
           # (IndexDoc, Join [rootDir a, Join [docsDir a, ''index.md'']])
           # map (\<lambda>n. (ResourceDoc,
                        Join [rootDir a, Join [docsDir a, ''resources'', n @ ''.md'']])) rkeys
           @ map (\<lambda>n. (DataSourceDoc,
                        Join [rootDir a, Join [docsDir a, ''data-sources'', n @ ''.md'']])) dkeys"
      unfolding sub by (rule abs)
    show "cleanDir (rootDir a) \<longrightarrow>
            Join [rootDir a, ''mkdocs.yml''] = rootDir a @ ''/mkdocs.yml''"
      using cfg by blast
    show "cleanDir (rootDir a) \<and> plain (docsDir a) \<longrightarrow>
            Join [rootDir a, Join [docsDir a, ''index.md'']]
              = rootDir a @ ''/'' @ docsDir a @ ''/index.md'' \<and>
            (\<forall>n. Separator \<notin> set n \<longrightarrow>
               Join [rootDir a, Join [docsDir a, ''resources'', n @ ''.md'']]
                 = rootDir a @ ''/'' @ docsDir a @ ''/resources/'' @ n @ ''.md'' \<and>
               Join [rootDir a, Join [docsDir a, ''data-sources'', n @ ''.md'']]
                 = rootDir a @ ''/'' @ docsDir a @ ''/data-sources/'' @ n @ ''.md'')"
      using docs by blast
  qed
qed

theorem output_paths_under_root_witness:
  "reaches_dispatch example_env example_args () \<and>
   range_order (ResourcesMap example_provider) [''acme_widget''] \<and>
   range_order (DataSourcesMap example_provider) [''acme_image''] \<and>
   cleanDir (rootDir example_args) \<and> plain (docsDir example_args) \<and>
   map_option (\<lambda>s. map (outputFile example_args) (submitted (trace s)))
     (Document_run example_env example_provider [''acme_widget''] [''acme_image'']
        example_schedule)
     = Some [''/srv/site/mkdocs.yml'', ''/srv/site/docs/index.md'',
             ''/srv/site/docs/resources/acme_widget.md'',
             ''/srv/site/docs/data-sources/acme_image.md'']"
proof -
  from successful_run obtain s
    where all: "Document_run example_env example_provider [''acme_widget''] [''acme_image'']
          example_schedule = Some s \<and> returned s = Some []"
    by (rule exE)
  then have run: "Document_run example_env example_provider [''acme_widget''] [''acme_image'']
          example_schedule = Some s"
    and ret: "returned s = Some []"
    by simp_all
  have pd: "plain (docsDir example_args)"
    by (simp add: plain_def example_args_def Separator_def)
  note cd = example_cleanDir
  have names: "Separator \<notin> set ''acme_widget''" "Separator \<notin> set ''acme_image''"
    by (simp_all add: Separator_def)
  note t = output_paths_under_root[OF example_dispatch(1) example_orders run ret]
  from t have files: "map (\<lambda>t. (task_role t, outputFile example_args t)) (submitted (trace s)) =
       [(ConfigFile, Join [rootDir example_args, ''mkdocs.yml'']),
        (IndexDoc, Join [rootDir example_args, Join [docsDir example_args, ''index.md'']]),
        (ResourceDoc, Join [rootDir example_args,
           Join [docsDir example_args, ''resources'', ''acme_widget'' @ ''.md'']]),
        (DataSourceDoc, Join [rootDir example_args,
           Join [docsDir example_args, ''data-sources'', ''acme_image'' @ ''.md'']])]"
    by simp
  from t cd have c0: "Join [rootDir example_args, ''mkdocs.yml'']
      = rootDir example_args @ ''/mkdocs.yml''"
    by blast
  from t cd pd have lit: "Join [rootDir example_args, Join [docsDir example_args, ''index.md'']]
              = rootDir example_args @ ''/'' @ docsDir example_args @ ''/index.md'' \<and>
            (\<forall>n. Separator \<notin> set n \<longrightarrow>
               Join [rootDir example_args, Join [docsDir example_args, ''resources'', n @ ''.md'']]
                 = rootDir example_args @ ''/'' @ docsDir example_args @ ''/resources/'' @ n @ ''.md'' \<and>
               Join [rootDir example_args, Join [docsDir example_args, ''data-sources'', n @ ''.md'']]
                 = rootDir example_args @ ''/'' @ docsDir example_args @ ''/data-sources/'' @ n @ ''.md'')"
    by blast
  from lit have c1: "Join [rootDir example_args, Join [docsDir example_args, ''index.md'']]
              = rootDir example_args @ ''/'' @ docsDir example_args @ ''/index.md''"
    by (rule conjunct1)
  from lit names(1) have c2: "Join [rootDir example_args,
        Join [docsDir example_args, ''resources'', ''acme_widget'' @ ''.md'']]
      = rootDir example_args @ ''/'' @ docsDir example_args @ ''/resources/'' @ ''acme_widget'' @ ''.md''"
    by blast
  from lit names(2) have c3: "Join [rootDir example_args,
        Join [docsDir example_args, ''data-sources'', ''acme_image'' @ ''.md'']]
      = rootDir example_args @ ''/'' @ docsDir example_args @ ''/data-sources/'' @ ''acme_image'' @ ''.md''"
    by blast
  from files have "map snd (map (\<lambda>t. (task_role t, outputFile example_args t)) (submitted (trace s))) =
       [Join [rootDir example_args, ''mkdocs.yml''],
        Join [rootDir example_args, Join [docsDir example_args, ''index.md'']],
        Join [rootDir example_args,
           Join [docsDir example_args, ''resources'', ''acme_widget'' @ ''.md'']],
        Join [rootDir example_args,
           Join [docsDir example_args, ''data-sources'', ''acme_image'' @ ''.md'']]]"
    by (simp only: list.map snd_conv)
  then have "map (outputFile example_args) (submitted (trace s)) =
       [rootDir example_args @ ''/mkdocs.yml'',
        rootDir example_args @ ''/'' @ docsDir example_args @ ''/index.md'',
        rootDir example_args @ ''/'' @ docsDir example_args @ ''/resources/'' @ ''acme_widget'' @ ''.md'',
        rootDir example_args @ ''/'' @ docsDir example_args @ ''/data-sources/'' @ ''acme_image'' @ ''.md'']"
    unfolding c0 c1 c2 c3 by (simp add: comp_def)
  then have "map (outputFile example_args) (submitted (trace s)) =
      [''/srv/site/mkdocs.yml'', ''/srv/site/docs/index.md'',
       ''/srv/site/docs/resources/acme_widget.md'',
       ''/srv/site/docs/data-sources/acme_image.md'']"
    by (simp add: example_args_def)
  then have "map_option (\<lambda>s. map (outputFile example_args) (submitted (trace s)))
     (Document_run example_env example_provider [''acme_widget''] [''acme_image'']
        example_schedule)
     = Some [''/srv/site/mkdocs.yml'', ''/srv/site/docs/index.md'',
             ''/srv/site/docs/resources/acme_widget.md'',
             ''/srv/site/docs/data-sources/acme_image.md'']"
    unfolding run by simp
  with example_dispatch(1) example_orders cd pd show ?thesis by simp
qed

text \<open>
  Claim C8. The template name of each task is the binding name of its role, followed
  by the configured template file extension: \<^verbatim>\<open>mkdocs.yml\<close> for the config task,
  \<^verbatim>\<open>index.md\<close> for the index task, \<^verbatim>\<open>resource.md\<close> for every resource task and
  \<^verbatim>\<open>datasource.md\<close> for every data-source task.
\<close>

theorem template_names_by_role:
  assumes "reaches_dispatch env a templates"
    and "range_order (ResourcesMap p) rkeys" and "range_order (DataSourcesMap p) dkeys"
    and "Document_run env p rkeys dkeys sched = Some s"
    and "returned s = Some errs"
  shows "map (\<lambda>t. (task_role t, task_templateName t)) (submitted (trace s)) =
           (ConfigFile, ''mkdocs.yml'' @ templateFileExt a)
           # (IndexDoc, ''index.md'' @ templateFileExt a)
           # map (\<lambda>n. (ResourceDoc, ''resource.md'' @ templateFileExt a)) rkeys
           @ map (\<lambda>n. (DataSourceDoc, ''datasource.md'' @ templateFileExt a)) dkeys"
proof -
  let ?ts = "tasks p a templates rkeys dkeys"
  from run_consistent[OF assms(1,4)] have c: "consistent env ?ts s" .
  from returned_facts(3)[OF c assms(5)] have sub: "submitted (trace s) = ?ts" .
  show ?thesis unfolding sub
    by (simp add: tasks_map[OF assms(2,3)] mkdocsYmlTask_def providerTask_def resourceTask_def
        dataSourceTask_def mkdocsYmlTemplate_def providerMdTemplate_def resourceMdTemplate_def
        dataSourceMdTemplate_def)
qed

theorem template_names_by_role_witness:
  "reaches_dispatch example_env example_args () \<and>
   range_order (ResourcesMap example_provider) [''acme_widget''] \<and>
   range_order (DataSourcesMap example_provider) [''acme_image''] \<and>
   map_option (\<lambda>s. map (\<lambda>t. (task_role t, task_templateName t)) (submitted (trace s)))
     (Document_run example_env example_provider [''acme_widget''] [''acme_image'']
        example_schedule)
     = Some [(ConfigFile, ''mkdocs.yml.template''), (IndexDoc, ''index.md.template''),
             (ResourceDoc, ''resource.md.template''),
             (DataSourceDoc, ''datasource.md.template'')]"
proof -
  from successful_run obtain s
    where all: "Document_run example_env example_provider [''acme_widget''] [''acme_image'']
          example_schedule = Some s \<and> returned s = Some []"
    by (rule exE)
  then have run: "Document_run example_env example_provider [''acme_widget''] [''acme_image'']
          example_schedule = Some s"
    and ret: "returned s = Some []"
    by simp_all
  from template_names_by_role[OF example_dispatch(1) example_orders run ret]
  have "map (\<lambda>t. (task_role t, task_templateName t)) (submitted (trace s)) =
      [(ConfigFile, ''mkdocs.yml.template''), (IndexDoc, ''index.md.template''),
       (ResourceDoc, ''resource.md.template''), (DataSourceDoc, ''datasource.md.template'')]"
    by (simp add: example_args_def)
  then have "map_option (\<lambda>s. map (\<lambda>t. (task_role t, task_templateName t)) (submitted (trace s)))
     (Document_run example_env example_provider [''acme_widget''] [''acme_image'']
        example_schedule)
     = Some [(ConfigFile, ''mkdocs.yml.template''), (IndexDoc, ''index.md.template''),
             (ResourceDoc, ''resource.md.template''),
             (DataSourceDoc, ''datasource.md.template'')]"
    unfolding run by simp
  with example_dispatch(1) example_orders show ?thesis by simp
qed

end
